theory Spec2Isabelle
  imports Complex_Main "HOL-Library.Log_Nat" "HOL-Library.Product_Lexorder"
begin

section \<open>Threshold selection and risk routing (examples/accuracy\_threshold\_script.py)\<close>

text \<open>
  A shallow embedding of the decision core of \<^verbatim>\<open>examples/accuracy_threshold_script.py\<close>:
  \<^verbatim>\<open>metrics_at_threshold\<close>, \<^verbatim>\<open>threshold_sweep\<close>, \<^verbatim>\<open>pick_threshold\<close>,
  \<^verbatim>\<open>make_t1_t2\<close> and \<^verbatim>\<open>route_with_t1_t2\<close>.

  A finite Python float is modelled by the real number it denotes. Comparisons of
  finite floats are exact, so code that only compares floats is modelled by
  comparisons of reals. Every arithmetic operation on floats is followed by the
  rounding \<open>fl\<close> of IEEE 754 binary64 (round to nearest, ties to even). NaN and the
  infinities are outside the model: no operation of the modelled functions produces
  them from finite inputs of the ranges considered.
\<close>

subsection \<open>IEEE 754 binary64 rounding\<close>

text \<open>Round to the nearest integer, ties to the even one (C's \<^verbatim>\<open>rint\<close>, NumPy's \<^verbatim>\<open>rint\<close>).\<close>

definition rint :: "real \<Rightarrow> int" where
  "rint x = (let f = \<lfloor>x\<rfloor>; d = x - of_int f in
     if d < 1 / 2 then f else if 1 / 2 < d then f + 1 else if even f then f else f + 1)"

text \<open>The binary exponent \<open>\<lfloor>log\<^sub>2 x\<rfloor>\<close> of a positive real, computed on integers.\<close>

definition ilog2 :: "real \<Rightarrow> int" where
  "ilog2 x = (if 1 \<le> x then bitlen \<lfloor>x\<rfloor> - 1 else - bitlen (\<lceil>1 / x\<rceil> - 1))"

text \<open>
  Rounding of a positive real to 53 significant bits: \<open>fexp x\<close> is the exponent of the last
  bit kept. Below \<open>2 powi (- 1022)\<close> the spacing stays \<open>2 powi (- 1074)\<close> (subnormal
  numbers). The exponent is not bounded above: the model agrees with binary64 wherever the
  binary64 result is finite.
\<close>

definition fexp :: "real \<Rightarrow> int" where
  "fexp x = max (ilog2 x - 52) (- 1074)"

definition flp :: "real \<Rightarrow> real" where
  "flp x = (let e = fexp x in of_int (rint (x * 2 powi (- e))) * 2 powi e)"

definition fl :: "real \<Rightarrow> real" where
  "fl x = (if x = 0 then 0 else if x < 0 then - flp (- x) else flp x)"

text \<open>The reals that are binary64 values.\<close>

definition is_double :: "real \<Rightarrow> bool" where
  "is_double x \<longleftrightarrow> fl x = x"

subsection \<open>Errors\<close>

text \<open>
  The exceptions that NumPy and pandas raise inside the modelled functions.
  \<open>InvalidInput\<close> is the error class of the specification; no path of the source
  raises it.
\<close>

datatype py_error =
    ValueError
  | ZeroDivisionError
  | KeyError string
  | IndexError
  | InvalidInput string

subsection \<open>Metrics at a threshold\<close>

text \<open>
  The dictionary returned by \<^verbatim>\<open>metrics_at_threshold\<close>; the field \<open>thr\<close> is its key
  \<^verbatim>\<open>"t"\<close>, the other fields carry the names of their keys.
\<close>

record metrics =
  thr :: real
  tp :: nat
  fp :: nat
  tn :: nat
  fn :: nat
  precision :: real
  recall :: real
  fpr :: real
  fnr :: real
  f1 :: real

text \<open>
  NumPy broadcasting of two one-dimensional arrays in an elementwise operation: equal
  lengths pair up, an array of length one is repeated, anything else raises ValueError.
\<close>

definition broadcast :: "'a list \<Rightarrow> 'b list \<Rightarrow> py_error + ('a \<times> 'b) list" where
  "broadcast xs ys =
     (if length xs = length ys then Inr (zip xs ys)
      else if length xs = 1 then Inr (map (\<lambda>y. (hd xs, y)) ys)
      else if length ys = 1 then Inr (map (\<lambda>x. (x, hd ys)) xs)
      else Inl ValueError)"

text \<open>\<^verbatim>\<open>y_pred = (y_score >= t).astype(int)\<close>\<close>

definition y_pred_of :: "real list \<Rightarrow> real \<Rightarrow> int list" where
  "y_pred_of y_score t = map (\<lambda>s. if t \<le> s then 1 else 0) y_score"

text \<open>\<^verbatim>\<open>int(mask.sum())\<close> for the mask of a predicate on the paired entries.\<close>

definition count_where :: "('a \<Rightarrow> bool) \<Rightarrow> 'a list \<Rightarrow> nat" where
  "count_where P xs = length (filter P xs)"

text \<open>Python's \<^verbatim>\<open>a / b\<close> on two integers: the correctly rounded quotient.\<close>

definition int_truediv :: "nat \<Rightarrow> nat \<Rightarrow> real" where
  "int_truediv a b = fl (real a / real b)"

definition metrics_at_threshold :: "int list \<Rightarrow> real list \<Rightarrow> real \<Rightarrow> py_error + metrics" where
  "metrics_at_threshold y_true y_score t =
     (let y_pred = y_pred_of y_score t in
      case broadcast y_pred y_true of
        Inl e \<Rightarrow> Inl e
      | Inr pairs \<Rightarrow>
         (let tp = count_where (\<lambda>(p, y). p = 1 \<and> y = 1) pairs;
              fp = count_where (\<lambda>(p, y). p = 1 \<and> y = 0) pairs;
              tn = count_where (\<lambda>(p, y). p = 0 \<and> y = 0) pairs;
              fn = count_where (\<lambda>(p, y). p = 0 \<and> y = 1) pairs;
              precision = (if tp + fp \<noteq> 0 then int_truediv tp (tp + fp) else 0);
              recall = (if tp + fn \<noteq> 0 then int_truediv tp (tp + fn) else 0);
              fnr = (if tp + fn \<noteq> 0 then int_truediv fn (tp + fn) else 0);
              fpr = (if fp + tn \<noteq> 0 then int_truediv fp (fp + tn) else 0);
              f1 = (if fl (precision + recall) \<noteq> 0
                    then fl (fl (fl (2 * precision) * recall) / fl (precision + recall))
                    else 0)
          in Inr \<lparr>thr = t, tp = tp, fp = fp, tn = tn, fn = fn,
                   precision = precision, recall = recall, fpr = fpr, fnr = fnr, f1 = f1\<rparr>))"

subsection \<open>Threshold sweep\<close>

text \<open>
  The largest length of an array of doubles: NumPy refuses an array whose size in bytes
  exceeds the largest signed 64-bit integer. The memory of the machine is not modelled.
\<close>

definition npy_max_length :: int where
  "npy_max_length = (2 ^ 63 - 1) div 8"

text \<open>
  \<^verbatim>\<open>np.arange(start, stop, step)\<close> on floats, as NumPy computes it: the length is
  \<open>\<lceil>(stop - start) / step\<rceil>\<close> in floating point (none when that is not positive), the
  first two entries are \<open>start\<close> and \<open>start + step\<close>, and entry \<open>i\<close> is
  \<open>start + i * delta\<close> where \<open>delta\<close> is the difference of the first two. A zero step
  is rejected, and a length beyond the largest array raises ValueError
  (\<^verbatim>\<open>Maximum allowed size exceeded\<close>).
\<close>

definition arange :: "real \<Rightarrow> real \<Rightarrow> real \<Rightarrow> py_error + real list" where
  "arange start stop step =
     (if step = 0 then Inl ZeroDivisionError
      else let len = \<lceil>fl (fl (stop - start) / step)\<rceil> in
        if npy_max_length < len then Inl ValueError
        else let nxt = fl (start + step);
                 delta = fl (nxt - start)
             in Inr (map (\<lambda>i. if i = 0 then start else if i = 1 then nxt
                                  else fl (start + fl (real i * delta))) [0..<nat len]))"

text \<open>
  \<^verbatim>\<open>np.round(x, 2)\<close>: NumPy scales by \<open>10\<^sup>2\<close>, rounds to the nearest integer (ties to
  even) and divides by \<open>10\<^sup>2\<close>.
\<close>

definition np_round2 :: "real \<Rightarrow> real" where
  "np_round2 x = fl (of_int (rint (fl (x * 100))) / 100)"

definition thresholds_of :: "real \<Rightarrow> py_error + real list" where
  "thresholds_of step =
     (case arange step 1 step of Inl e \<Rightarrow> Inl e | Inr g \<Rightarrow> Inr (map np_round2 g))"


text \<open>A list comprehension whose body may raise: the first exception ends it.\<close>

fun collect :: "('e + 'a) list \<Rightarrow> 'e + 'a list" where
  "collect [] = Inr []"
| "collect (Inl e # rs) = Inl e"
| "collect (Inr x # rs) = (case collect rs of Inl e \<Rightarrow> Inl e | Inr xs \<Rightarrow> Inr (x # xs))"

text \<open>
  A pandas DataFrame of metrics rows: its column labels and its rows in order.
  \<^verbatim>\<open>pd.DataFrame(rows)\<close> of a list of dictionaries takes the columns from the
  dictionaries, so the frame of an empty list has no columns.
\<close>

record dataframe =
  columns :: "string list"
  rows :: "metrics list"

definition metric_columns :: "string list" where
  "metric_columns =
     [''t'', ''tp'', ''fp'', ''tn'', ''fn'', ''precision'', ''recall'', ''fpr'', ''fnr'', ''f1'']"

definition DataFrame :: "metrics list \<Rightarrow> dataframe" where
  "DataFrame rs = \<lparr>columns = (if rs = [] then [] else metric_columns), rows = rs\<rparr>"

definition threshold_sweep :: "int list \<Rightarrow> real list \<Rightarrow> real \<Rightarrow> py_error + dataframe" where
  "threshold_sweep y_true y_score step =
     (case thresholds_of step of
        Inl e \<Rightarrow> Inl e
      | Inr thresholds \<Rightarrow>
         (case collect (map (metrics_at_threshold y_true y_score) thresholds) of
            Inl e \<Rightarrow> Inl e
          | Inr rs \<Rightarrow> Inr (DataFrame rs)))"

subsection \<open>Threshold selection\<close>

text \<open>
  The frame \<^verbatim>\<open>df\<close> after the constraint block of \<^verbatim>\<open>pick_threshold\<close>: the rows that
  meet the precision floor, or all rows when the floor is \<^verbatim>\<open>None\<close> or no row meets it.
  Reading a column that the frame does not have raises KeyError.
\<close>

definition candidates :: "dataframe \<Rightarrow> real option \<Rightarrow> py_error + metrics list" where
  "candidates sweep_df precision_floor =
     (case precision_floor of
        None \<Rightarrow> Inr (rows sweep_df)
      | Some pf \<Rightarrow>
          if ''precision'' \<notin> set (columns sweep_df) then Inl (KeyError ''precision'')
          else (let df = filter (\<lambda>r. pf \<le> precision r) (rows sweep_df)
                in if df = [] then Inr (rows sweep_df) else Inr df))"

text \<open>
  \<^verbatim>\<open>df.sort_values(["fnr", "t"]).iloc[0]\<close>: a stable sort by the pair of keys, then
  the first row; \<^verbatim>\<open>iloc[0]\<close> of a frame without rows raises IndexError.
\<close>

definition pick_threshold :: "dataframe \<Rightarrow> real option \<Rightarrow> py_error + real" where
  "pick_threshold sweep_df precision_floor =
     (case candidates sweep_df precision_floor of
        Inl e \<Rightarrow> Inl e
      | Inr df \<Rightarrow>
          if ''fnr'' \<notin> set (columns sweep_df) then Inl (KeyError ''fnr'')
          else if ''t'' \<notin> set (columns sweep_df) then Inl (KeyError ''t'')
          else (case sort_key (\<lambda>r. (fnr r, thr r)) df of
                  [] \<Rightarrow> Inl IndexError
                | best # _ \<Rightarrow> Inr (thr best)))"

text \<open>
  A sweep table has the columns that \<^verbatim>\<open>pick_threshold\<close> reads.
\<close>

definition has_sweep_columns :: "dataframe \<Rightarrow> bool" where
  "has_sweep_columns df \<longleftrightarrow> {''precision'', ''fnr'', ''t''} \<subseteq> set (columns df)"

text \<open>
  Synthetic sweep tables for the selector: a row with a given threshold, precision and
  false-negative rate, and a frame with the ten columns over given rows.
\<close>

definition synthetic_row :: "real \<Rightarrow> real \<Rightarrow> real \<Rightarrow> metrics" where
  "synthetic_row t p n = \<lparr>thr = t, tp = 0, fp = 0, tn = 0, fn = 0,
                           precision = p, recall = 0, fpr = 0, fnr = n, f1 = 0\<rparr>"

definition synthetic_sweep :: "metrics list \<Rightarrow> dataframe" where
  "synthetic_sweep rs = \<lparr>columns = metric_columns, rows = rs\<rparr>"

text \<open>
  Two rows share the minimal false-negative rate \<open>0.2\<close>, at \<open>t = 0.6\<close> and \<open>t = 0.3\<close>; no
  precision reaches \<open>0.95\<close>.
\<close>

definition tie_sweep :: dataframe where
  "tie_sweep = synthetic_sweep
     [synthetic_row (6 / 10) (1 / 2) (2 / 10),
      synthetic_row (3 / 10) (4 / 10) (2 / 10),
      synthetic_row (1 / 10) (3 / 10) (5 / 10)]"

subsection \<open>Band\<close>

definition make_t1_t2 :: "real \<Rightarrow> real \<Rightarrow> real \<times> real" where
  "make_t1_t2 t band = (let t1 = max 0 (fl (t - band)); t2 = min 1 (fl (t + band)) in (t1, t2))"

subsection \<open>Routing\<close>

text \<open>
  \<^verbatim>\<open>route[mask] = value\<close> on a NumPy array: the entries selected by the boolean mask
  are overwritten, the others are kept.
\<close>

definition mask_assign :: "bool list \<Rightarrow> 'a \<Rightarrow> 'a list \<Rightarrow> 'a list" where
  "mask_assign msk v xs = map (\<lambda>(m, x). if m then v else x) (zip msk xs)"

text \<open>
  \<^verbatim>\<open>np.empty(n, dtype=object)\<close> is an array of \<^verbatim>\<open>None\<close>; the three masked assignments
  run in the order of the source.
\<close>

definition route_with_t1_t2 :: "real list \<Rightarrow> real \<Rightarrow> real \<Rightarrow> string option list" where
  "route_with_t1_t2 y_score t1 t2 =
     (let route = replicate (length y_score) None;
          route = mask_assign (map (\<lambda>s. s < t1) y_score) (Some ''low_risk'') route;
          route = mask_assign (map (\<lambda>s. t1 \<le> s \<and> s < t2) y_score) (Some ''review'') route;
          route = mask_assign (map (\<lambda>s. t2 \<le> s) y_score) (Some ''high_risk'') route
      in route)"

definition action_from_route :: "string \<Rightarrow> string" where
  "action_from_route route =
     (if route = ''low_risk'' then ''auto_approve''
      else if route = ''high_risk'' then ''intervene_or_block''
      else ''manual_review'')"

section \<open>Properties\<close>

subsection \<open>Rounding\<close>

lemma rint_of_int: "rint (of_int n) = n"
  by (simp add: rint_def)

lemma rint_cases: "rint x = \<lfloor>x\<rfloor> \<or> rint x = \<lfloor>x\<rfloor> + 1"
  by (simp add: rint_def Let_def)

lemma rint_mono: "x \<le> y \<Longrightarrow> rint x \<le> rint y"
proof -
  assume le: "x \<le> y"
  then have fl: "\<lfloor>x\<rfloor> \<le> \<lfloor>y\<rfloor>" by (rule floor_mono)
  show ?thesis
  proof (cases "\<lfloor>x\<rfloor> = \<lfloor>y\<rfloor>")
    case True
    with le show ?thesis by (auto simp: rint_def Let_def)
  next
    case False
    with fl have "\<lfloor>x\<rfloor> + 1 \<le> \<lfloor>y\<rfloor>" by simp
    moreover have "rint x \<le> \<lfloor>x\<rfloor> + 1" using rint_cases [of x] by auto
    moreover have "\<lfloor>y\<rfloor> \<le> rint y" using rint_cases [of y] by auto
    ultimately show ?thesis by linarith
  qed
qed

lemma rint_error: "\<bar>of_int (rint x) - x\<bar> \<le> 1 / 2"
  unfolding rint_def Let_def by (auto; linarith)

lemma ilog2_bounds:
  assumes "0 < x"
  shows "2 powi (ilog2 x) \<le> x \<and> x < 2 powi (ilog2 x + 1)"
proof (cases "1 \<le> x")
  case True
  define n where "n = nat \<lfloor>x\<rfloor>"
  have n1: "0 < n" using True by (simp add: n_def)
  have nx: "real n \<le> x" "x < real n + 1" using True by (auto simp: n_def)
  define L where "L = floorlog 2 n"
  from floorlog_bounds [OF n1, of 2] have b: "2 ^ (L - 1) \<le> n" "n < 2 ^ L"
    by (auto simp: L_def)
  then have L1: "0 < L" using n1 by (cases L) auto
  have k: "ilog2 x = int (L - 1)" using True L1 by (simp add: ilog2_def bitlen_def n_def L_def)
  have r1: "(2::real) ^ (L - 1) \<le> real n" using b(1) by (metis of_nat_le_iff of_nat_numeral of_nat_power)
  have r2: "real n + 1 \<le> 2 ^ L"
  proof -
    from b(2) have "n + 1 \<le> 2 ^ L" by simp
    then have "real (n + 1) \<le> real (2 ^ L)" by (rule iffD2 [OF of_nat_le_iff])
    then show ?thesis by simp
  qed
  have p1: "(2::real) powi (ilog2 x) = 2 ^ (L - 1)" unfolding k by (rule power_int_of_nat)
  have "ilog2 x + 1 = int L" using L1 by (simp add: k)
  then have p2: "(2::real) powi (ilog2 x + 1) = 2 ^ L" by (simp only: power_int_of_nat)
  show ?thesis unfolding p1 p2 using r1 r2 nx by linarith
next
  case False
  define y where "y = 1 / x"
  have y1: "1 < y" using False assms by (simp add: y_def)
  define m where "m = nat (\<lceil>y\<rceil> - 1)"
  have c: "y \<le> of_int \<lceil>y\<rceil>" "of_int \<lceil>y\<rceil> - 1 < y" by linarith+
  have c2: "2 \<le> \<lceil>y\<rceil>" using y1 by linarith
  then have m1: "0 < m" by (simp add: m_def)
  have my: "y \<le> real m + 1" "real m < y" using c c2 by (auto simp: m_def)
  define L where "L = floorlog 2 m"
  from floorlog_bounds [OF m1, of 2] have b: "2 ^ (L - 1) \<le> m" "m < 2 ^ L"
    by (auto simp: L_def)
  then have L1: "0 < L" using m1 by (cases L) auto
  have k: "ilog2 x = - int L" using False by (simp add: ilog2_def bitlen_def m_def L_def y_def)
  have r1: "(2::real) ^ (L - 1) \<le> real m" using b(1) by (metis of_nat_le_iff of_nat_numeral of_nat_power)
  have r2: "real m + 1 \<le> 2 ^ L"
  proof -
    from b(2) have "m + 1 \<le> 2 ^ L" by simp
    then have "real (m + 1) \<le> real (2 ^ L)" by (rule iffD2 [OF of_nat_le_iff])
    then show ?thesis by simp
  qed
  have yl: "y \<le> 2 ^ L" "2 ^ (L - 1) < y" using r1 r2 my by linarith+
  have x_eq: "x = 1 / y" using assms by (simp add: y_def)
  have p1: "2 powi (- int L) = 1 / (2::real) ^ L"
    by (simp only: power_int_minus power_int_of_nat inverse_eq_divide)
  have "- int L + 1 = - int (L - 1)" using L1 by simp
  then have p2: "2 powi (- int L + 1) = 1 / (2::real) ^ (L - 1)"
    by (simp only: power_int_minus power_int_of_nat inverse_eq_divide)
  have "1 / (2::real) ^ L \<le> 1 / y" using yl(1) y1 by (simp add: frac_le)
  then have g1: "2 powi (ilog2 x) \<le> x" by (simp only: k p1 x_eq [symmetric])
  have "1 / y < 1 / (2::real) ^ (L - 1)" using yl(2) by (simp add: frac_less2)
  then have g2: "x < 2 powi (ilog2 x + 1)" by (simp only: k p2 x_eq [symmetric])
  from g1 g2 show ?thesis by simp
qed

lemma ilog2_mono:
  assumes "0 < x" and "x \<le> y"
  shows "ilog2 x \<le> ilog2 y"
proof (rule ccontr)
  assume "\<not> ilog2 x \<le> ilog2 y"
  then have "ilog2 y + 1 \<le> ilog2 x" by simp
  then have "(2::real) powi (ilog2 y + 1) \<le> 2 powi (ilog2 x)"
    by (rule power_int_increasing) simp
  moreover have "y < 2 powi (ilog2 y + 1)" using ilog2_bounds [of y] assms by simp
  moreover have "2 powi (ilog2 x) \<le> x" using ilog2_bounds [of x] assms by simp
  ultimately show False using assms by linarith
qed

lemma fexp_mono: "0 < x \<Longrightarrow> x \<le> y \<Longrightarrow> fexp x \<le> fexp y"
  using ilog2_mono [of x y] by (simp add: fexp_def)

lemma two_powi_pos: "0 < (2::real) powi e"
  by simp

lemma scale_cancel: "x * 2 powi (- e) * 2 powi e = (x::real)"
  by (simp add: power_int_minus)

lemma rint_nonneg: "0 \<le> x \<Longrightarrow> 0 \<le> rint x"
  using rint_mono [of 0 x] rint_of_int [of 0] by simp

lemma flp_nonneg: "0 < x \<Longrightarrow> 0 \<le> flp x"
  by (simp add: flp_def Let_def rint_nonneg)

lemma flp_upper:
  assumes "0 < x"
  shows "flp x \<le> 2 powi (fexp x + 53)"
proof -
  define e where "e = fexp x"
  have "ilog2 x + 1 \<le> e + 53" by (simp add: e_def fexp_def)
  then have "(2::real) powi (ilog2 x + 1) \<le> 2 powi (e + 53)"
    by (rule power_int_increasing) simp
  then have "x \<le> 2 powi (e + 53)" using ilog2_bounds [OF assms] by linarith
  then have "x * 2 powi (- e) \<le> 2 powi (e + 53) * 2 powi (- e)"
    by (rule mult_right_mono) simp
  also have "\<dots> = 2 powi 53" by (simp add: power_int_add power_int_minus)
  also have "\<dots> = of_int (2 ^ 53)" by simp
  finally have "rint (x * 2 powi (- e)) \<le> 2 ^ 53"
    using rint_mono [of "x * 2 powi (- e)" "of_int (2 ^ 53)"] by (simp only: rint_of_int)
  then have "real_of_int (rint (x * 2 powi (- e))) \<le> 2 powi 53"
    by (metis \<open>2 powi 53 = real_of_int (2 ^ 53)\<close> of_int_le_iff)
  then have "of_int (rint (x * 2 powi (- e))) * 2 powi e \<le> 2 powi 53 * (2::real) powi e"
    by (rule mult_right_mono) simp
  also have "\<dots> = 2 powi (e + 53)" by (simp add: power_int_add)
  finally show ?thesis by (simp add: flp_def Let_def e_def)
qed

lemma flp_lower:
  assumes "0 < x" and "fexp x = ilog2 x - 52"
  shows "2 powi (fexp x + 52) \<le> flp x"
proof -
  define e where "e = fexp x"
  have "ilog2 x = e + 52" using assms(2) by (simp add: e_def)
  then have "2 powi (e + 52) \<le> x" using ilog2_bounds [OF assms(1)] by simp
  then have "2 powi (e + 52) * 2 powi (- e) \<le> x * 2 powi (- e)"
    by (rule mult_right_mono) simp
  moreover have "2 powi (e + 52) * 2 powi (- e) = (2::real) powi 52"
    by (simp add: power_int_add power_int_minus)
  moreover have p: "(2::real) powi 52 = of_int (2 ^ 52)" by simp
  ultimately have "of_int (2 ^ 52) \<le> x * 2 powi (- e)" by simp
  then have "2 ^ 52 \<le> rint (x * 2 powi (- e))"
    using rint_mono [of "of_int (2 ^ 52)" "x * 2 powi (- e)"] by (simp only: rint_of_int)
  then have "(2::real) powi 52 \<le> of_int (rint (x * 2 powi (- e)))"
    by (metis p of_int_le_iff)
  then have "2 powi 52 * (2::real) powi e \<le> of_int (rint (x * 2 powi (- e))) * 2 powi e"
    by (rule mult_right_mono) simp
  moreover have "(2::real) powi (e + 52) = 2 powi 52 * 2 powi e"
    using power_int_add [of "2::real" e 52] by (simp only: mult.commute) simp
  moreover have "flp x = of_int (rint (x * 2 powi (- e))) * 2 powi e"
    by (simp add: flp_def Let_def e_def)
  ultimately show ?thesis unfolding e_def by linarith
qed

lemma flp_mono:
  assumes "0 < x" and "x \<le> y"
  shows "flp x \<le> flp y"
proof (cases "fexp x = fexp y")
  case True
  have "x * 2 powi (- fexp y) \<le> y * 2 powi (- fexp y)"
    using assms(2) by (rule mult_right_mono) simp
  then have "rint (x * 2 powi (- fexp y)) \<le> rint (y * 2 powi (- fexp y))" by (rule rint_mono)
  then have "real_of_int (rint (x * 2 powi (- fexp y))) \<le> of_int (rint (y * 2 powi (- fexp y)))"
    by simp
  then have "of_int (rint (x * 2 powi (- fexp y))) * 2 powi (fexp y)
      \<le> of_int (rint (y * 2 powi (- fexp y))) * (2::real) powi (fexp y)"
    by (rule mult_right_mono) simp
  then show ?thesis by (simp add: flp_def Let_def True)
next
  case False
  have y: "0 < y" using assms by simp
  from False fexp_mono [OF assms] have lt: "fexp x + 1 \<le> fexp y" by simp
  then have "- 1074 < fexp y" by (simp add: fexp_def)
  then have "fexp y = ilog2 y - 52" by (simp add: fexp_def max_def split: if_splits)
  from flp_lower [OF y this] have "2 powi (fexp y + 52) \<le> flp y" .
  moreover have "flp x \<le> 2 powi (fexp x + 53)" using assms(1) by (rule flp_upper)
  moreover have "(2::real) powi (fexp x + 53) \<le> 2 powi (fexp y + 52)"
    by (rule power_int_increasing) (use lt in simp_all)
  ultimately show ?thesis by linarith
qed

lemma fl_0: "fl 0 = 0"
  by (simp add: fl_def)

lemma fl_1: "fl 1 = 1"
  by (simp add: fl_def flp_def fexp_def ilog2_def rint_def compute_bitlen)

text \<open>The equations that evaluate \<open>fl\<close> on a numeral.\<close>

lemmas fl_eval = fl_def flp_def fexp_def ilog2_def rint_def compute_bitlen Let_def

lemma fl_nonneg: "0 \<le> x \<Longrightarrow> 0 \<le> fl x"
  by (simp add: fl_def flp_nonneg)

lemma fl_nonpos: "x \<le> 0 \<Longrightarrow> fl x \<le> 0"
  using flp_nonneg [of "- x"] by (simp add: fl_def)

lemma fl_mono:
  assumes "x \<le> y"
  shows "fl x \<le> fl y"
proof -
  consider "y < 0" | "x \<le> 0" "0 \<le> y" | "0 < x" by linarith
  then show ?thesis
  proof cases
    case 1
    then have "flp (- y) \<le> flp (- x)" using assms by (intro flp_mono) simp_all
    then show ?thesis using 1 assms by (simp add: fl_def)
  next
    case 2
    then show ?thesis using fl_nonpos [of x] fl_nonneg [of y] by linarith
  next
    case 3
    then show ?thesis using assms flp_mono [of x y] by (simp add: fl_def)
  qed
qed

lemma fl_le_1: "x \<le> 1 \<Longrightarrow> fl x \<le> 1"
  using fl_mono [of x 1] by (simp add: fl_1)

lemma fl_unit_error:
  assumes "0 \<le> x" and "x \<le> 1"
  shows "\<bar>fl x - x\<bar> \<le> 1 / 2 ^ 54"
proof -
  consider "x = 0" | "x = 1" | "0 < x" "x < 1" using assms by linarith
  then show ?thesis
  proof cases
    case 1 then show ?thesis by (simp add: fl_0)
  next
    case 2 then show ?thesis by (simp add: fl_1)
  next
    case 3
    define e where "e = fexp x"
    define s where "s = x * 2 powi (- e)"
    have "2 powi (ilog2 x) \<le> x" using ilog2_bounds [OF 3(1)] by simp
    then have lt1: "(2::real) powi (ilog2 x) < 1" using 3(2) by simp
    have "ilog2 x < 0"
    proof (rule ccontr)
      assume "\<not> ilog2 x < 0"
      then have "0 \<le> ilog2 x" by simp
      then have "(2::real) powi 0 \<le> 2 powi (ilog2 x)" by (rule power_int_increasing) simp
      with lt1 show False by simp
    qed
    then have e53: "e \<le> - 53" by (simp add: e_def fexp_def)
    have x_eq: "x = s * 2 powi e" by (simp add: s_def scale_cancel)
    have "fl x - x = (of_int (rint s) - s) * 2 powi e"
      using 3(1) by (simp add: fl_def flp_def Let_def e_def [symmetric] s_def [symmetric] x_eq [symmetric] algebra_simps)
    then have "\<bar>fl x - x\<bar> = \<bar>of_int (rint s) - s\<bar> * 2 powi e"
      by (simp add: abs_mult)
    also have "\<dots> \<le> 1 / 2 * 2 powi e"
      by (rule mult_right_mono [OF rint_error]) simp
    also have "\<dots> \<le> 1 / 2 * 2 powi (- 53)"
      by (rule mult_left_mono [OF power_int_increasing [OF e53]]) simp_all
    also have "\<dots> = 1 / 2 ^ 54" by (simp add: power_int_minus)
    finally show ?thesis .
  qed
qed

lemma ilog2_unique:
  assumes "0 < x" and "2 powi k \<le> x" and "x < 2 powi (k + 1)"
  shows "ilog2 x = k"
proof -
  from ilog2_bounds [OF assms(1)]
  have b: "2 powi (ilog2 x) \<le> x" "x < 2 powi (ilog2 x + 1)" by simp_all
  have "\<not> ilog2 x < k"
  proof
    assume "ilog2 x < k"
    then have "ilog2 x + 1 \<le> k" by simp
    then have "(2::real) powi (ilog2 x + 1) \<le> 2 powi k" by (rule power_int_increasing) simp
    with b(2) assms(2) show False by linarith
  qed
  moreover have "\<not> k < ilog2 x"
  proof
    assume "k < ilog2 x"
    then have "k + 1 \<le> ilog2 x" by simp
    then have "(2::real) powi (k + 1) \<le> 2 powi (ilog2 x)" by (rule power_int_increasing) simp
    with b(1) assms(3) show False by linarith
  qed
  ultimately show ?thesis by simp
qed

lemma ilog2_less:
  assumes "0 < x" and "x < 2 powi k"
  shows "ilog2 x < k"
proof (rule ccontr)
  assume "\<not> ilog2 x < k"
  then have "k \<le> ilog2 x" by simp
  then have "(2::real) powi k \<le> 2 powi (ilog2 x)" by (rule power_int_increasing) simp
  with ilog2_bounds [OF assms(1)] assms(2) show False by linarith
qed

lemma fexp_ge: "- 1074 \<le> fexp x"
  by (simp add: fexp_def)

lemma powi_diff_int:
  assumes "e' \<le> e"
  shows "(2::real) powi e * 2 powi (- e') = of_int (2 ^ nat (e - e'))"
proof -
  have "(2::real) powi e * 2 powi (- e') = 2 powi (e + - e')"
    by (rule power_int_add [symmetric]) simp
  also have "e + - e' = int (nat (e - e'))" using assms by simp
  also have "(2::real) powi int (nat (e - e')) = 2 ^ nat (e - e')" by (rule power_int_of_nat)
  finally show ?thesis by simp
qed

lemma flp_fixed:
  assumes n: "0 < n" "n < 2 ^ 53" and e: "- 1074 \<le> e"
  shows "flp (of_int n * 2 powi e) = of_int n * 2 powi e"
proof -
  define y :: real where "y = of_int n * 2 powi e"
  have ypos: "0 < y" using n(1) by (simp add: y_def)
  have "real_of_int n < 2 powi 53"
  proof -
    have "real_of_int n < of_int (2 ^ 53)" using n(2) by (simp only: of_int_less_iff)
    then show ?thesis by simp
  qed
  then have "y < 2 powi 53 * 2 powi e" unfolding y_def by (rule mult_strict_right_mono) simp
  also have "2 powi 53 * 2 powi e = (2::real) powi (e + 53)"
    using power_int_add [of "2::real" e 53] by (simp only: mult.commute) simp
  finally have "ilog2 y < e + 53" using ypos by (intro ilog2_less)
  then have le: "fexp y \<le> e" using e by (simp add: fexp_def)
  have "y * 2 powi (- fexp y) = of_int n * (2 powi e * 2 powi (- fexp y))"
    by (simp add: y_def mult.assoc)
  also have "\<dots> = of_int n * of_int (2 ^ nat (e - fexp y))"
    by (simp only: powi_diff_int [OF le])
  also have "\<dots> = of_int (n * 2 ^ nat (e - fexp y))" by simp
  finally have s: "y * 2 powi (- fexp y) = of_int (n * 2 ^ nat (e - fexp y))" .
  have "flp y = of_int (rint (y * 2 powi (- fexp y))) * 2 powi (fexp y)"
    by (simp add: flp_def Let_def)
  also have "\<dots> = y * 2 powi (- fexp y) * 2 powi (fexp y)"
    by (simp only: s rint_of_int)
  also have "\<dots> = y" by (rule scale_cancel)
  finally show ?thesis by (simp add: y_def)
qed

lemma flp_fixed_pow:
  assumes e: "- 1074 \<le> e"
  shows "flp (of_int (2 ^ 53) * 2 powi e) = of_int (2 ^ 53) * 2 powi e"
proof -
  have a: "real_of_int (2 ^ 53) * 2 powi e = of_int (2 ^ 52) * 2 powi (e + 1)"
    by (simp add: power_int_add)
  show ?thesis unfolding a by (rule flp_fixed) (use e in simp_all)
qed

lemma fl_pos: "0 < x \<Longrightarrow> fl x = flp x"
  by (simp add: fl_def)

text \<open>Every result of rounding is a significand of at most 53 bits times a power of two.\<close>

lemma flp_repr:
  assumes "0 < x"
  shows "\<exists>n. 0 \<le> n \<and> n \<le> 2 ^ 53 \<and> flp x = of_int n * 2 powi (fexp x)"
proof -
  define e where "e = fexp x"
  define n where "n = rint (x * 2 powi (- e))"
  have "0 \<le> x * 2 powi (- e)" using assms by simp
  then have n0: "0 \<le> n" unfolding n_def by (rule rint_nonneg)
  have "flp x \<le> 2 powi (e + 53)" unfolding e_def using assms by (rule flp_upper)
  moreover have "flp x = of_int n * 2 powi e" by (simp add: flp_def Let_def n_def e_def)
  moreover have "(2::real) powi (e + 53) = 2 powi 53 * 2 powi e"
    using power_int_add [of "2::real" e 53] by (simp only: mult.commute) simp
  ultimately have "of_int n * 2 powi e \<le> 2 powi 53 * (2::real) powi e" by simp
  then have "real_of_int n \<le> 2 powi 53" by (simp only: mult_le_cancel_right) simp
  then have "real_of_int n \<le> of_int (2 ^ 53)" by simp
  then have "n \<le> 2 ^ 53" by (simp only: of_int_le_iff)
  with n0 \<open>flp x = of_int n * 2 powi e\<close> show ?thesis unfolding e_def by blast
qed

lemma fl_fixed:
  assumes "0 \<le> n" "n \<le> 2 ^ 53" "- 1074 \<le> e"
  shows "fl (of_int n * 2 powi e) = of_int n * 2 powi e"
proof -
  consider "n = 0" | "0 < n" "n < 2 ^ 53" | "n = 2 ^ 53" using assms by linarith
  then show ?thesis
  proof cases
    case 1 then show ?thesis by (simp add: fl_def)
  next
    case 2
    then have "0 < real_of_int n * 2 powi e" by simp
    then have "fl (of_int n * 2 powi e) = flp (of_int n * 2 powi e)" by (rule fl_pos)
    then show ?thesis using flp_fixed [OF 2 assms(3)] by simp
  next
    case 3
    have "0 < real_of_int n * 2 powi e" unfolding 3 by simp
    then have "fl (of_int n * 2 powi e) = flp (of_int n * 2 powi e)" by (rule fl_pos)
    then show ?thesis unfolding 3 by (simp only: flp_fixed_pow [OF assms(3)])
  qed
qed

lemma fl_idem: "fl (fl x) = fl x"
proof -
  have pos: "fl (flp y) = flp y" if "0 < y" for y
  proof -
    from flp_repr [OF that] obtain n where n: "0 \<le> n" "n \<le> 2 ^ 53" "flp y = of_int n * 2 powi (fexp y)"
      by blast
    show ?thesis unfolding n(3) by (rule fl_fixed [OF n(1) n(2) fexp_ge])
  qed
  have neg: "fl (- z) = - fl z" for z by (simp add: fl_def)
  consider "x = 0" | "x < 0" | "0 < x" by linarith
  then show ?thesis
  proof cases
    case 1 then show ?thesis by (simp add: fl_def)
  next
    case 2
    then have "fl x = - flp (- x)" by (simp add: fl_def)
    then show ?thesis using pos [of "- x"] 2 by (simp add: neg)
  next
    case 3
    then show ?thesis using pos [of x] by (simp add: fl_def)
  qed
qed

lemma is_double_fl: "is_double (fl x)"
  by (simp add: is_double_def fl_idem)

lemma fl_twice:
  assumes "is_double y" and "0 \<le> y"
  shows "fl (2 * y) = 2 * y"
proof (cases "y = 0")
  case True then show ?thesis by (simp add: fl_def)
next
  case False
  then have y: "0 < y" using assms by simp
  from flp_repr [OF y] obtain n where n: "0 \<le> n" "n \<le> 2 ^ 53" "flp y = of_int n * 2 powi (fexp y)"
    by blast
  have "y = flp y" using assms(1) y by (simp add: is_double_def fl_def)
  then have "2 * y = of_int n * 2 powi (fexp y + 1)"
    using n(3) by (simp add: power_int_add)
  moreover have "fl (of_int n * 2 powi (fexp y + 1)) = of_int n * 2 powi (fexp y + 1)"
    by (rule fl_fixed [OF n(1) n(2)]) (use fexp_ge [of y] in simp)
  ultimately show ?thesis by simp
qed


subsection \<open>Metrics\<close>

lemma count_where_map: "count_where P (map g xs) = count_where (P \<circ> g) xs"
  by (simp add: count_where_def filter_map)

lemma count_where_mono:
  "(\<And>x. x \<in> set xs \<Longrightarrow> P x \<Longrightarrow> Q x) \<Longrightarrow> count_where P xs \<le> count_where Q xs"
  unfolding count_where_def
proof (induction xs)
  case Nil
  show ?case by simp
next
  case (Cons x xs)
  then show ?case by (auto simp: le_Suc_eq)
qed

lemma count_where_split:
  "count_where (\<lambda>x. P x \<and> Q x) xs + count_where (\<lambda>x. P x \<and> \<not> Q x) xs = count_where P xs"
  unfolding count_where_def by (induction xs) auto

lemma count_where_cong:
  "(\<And>x. x \<in> set xs \<Longrightarrow> P x = Q x) \<Longrightarrow> count_where P xs = count_where Q xs"
  unfolding count_where_def by (induction xs) auto

lemma count_where_le_length: "count_where P xs \<le> length xs"
  by (simp add: count_where_def)

lemma broadcast_map_left:
  "broadcast (map f xs) ys =
     (case broadcast xs ys of Inl e \<Rightarrow> Inl e | Inr ps \<Rightarrow> Inr (map (\<lambda>(x, y). (f x, y)) ps))"
proof -
  have hd1: "hd (map f xs) = f (hd xs)" if "length xs = 1"
    using that by (cases xs) simp_all
  show ?thesis
    by (auto simp: broadcast_def zip_map1 hd1 comp_def)
qed

text \<open>The scores paired with the labels, as broadcasting pairs them.\<close>

lemma metrics_at_threshold_Inr:
  assumes "metrics_at_threshold y_true y_score t = Inr m"
  obtains sp where "broadcast y_score y_true = Inr sp"
    and "thr m = t"
    and "tp m = count_where (\<lambda>(s, y). t \<le> s \<and> y = 1) sp"
    and "fp m = count_where (\<lambda>(s, y). t \<le> s \<and> y = 0) sp"
    and "tn m = count_where (\<lambda>(s, y). \<not> t \<le> s \<and> y = 0) sp"
    and "fn m = count_where (\<lambda>(s, y). \<not> t \<le> s \<and> y = 1) sp"
    and "precision m = (if tp m + fp m \<noteq> 0 then int_truediv (tp m) (tp m + fp m) else 0)"
    and "recall m = (if tp m + fn m \<noteq> 0 then int_truediv (tp m) (tp m + fn m) else 0)"
    and "fnr m = (if tp m + fn m \<noteq> 0 then int_truediv (fn m) (tp m + fn m) else 0)"
    and "fpr m = (if fp m + tn m \<noteq> 0 then int_truediv (fp m) (fp m + tn m) else 0)"
    and "f1 m = (if fl (precision m + recall m) \<noteq> 0
                 then fl (fl (fl (2 * precision m) * recall m) / fl (precision m + recall m))
                 else 0)"
proof -
  from assms obtain sp where sp: "broadcast y_score y_true = Inr sp"
    by (auto simp: metrics_at_threshold_def y_pred_of_def broadcast_map_left Let_def
        split: sum.splits)
  have c: "count_where (\<lambda>(p, y). p = a \<and> y = b) (map (\<lambda>(s, y). (if t \<le> s then 1 else 0 :: int, y)) sp)
      = count_where (\<lambda>(s, y). (if a = 1 then t \<le> s else \<not> t \<le> s) \<and> y = b) sp"
    if "a = 0 \<or> a = 1" for a b :: int
    unfolding count_where_map using that by (intro count_where_cong) (auto split: if_splits)
  from assms sp have m: "m = (let pairs = map (\<lambda>(s, y). (if t \<le> s then 1 else 0 :: int, y)) sp;
              tp = count_where (\<lambda>(p, y). p = 1 \<and> y = 1) pairs;
              fp = count_where (\<lambda>(p, y). p = 1 \<and> y = 0) pairs;
              tn = count_where (\<lambda>(p, y). p = 0 \<and> y = 0) pairs;
              fn = count_where (\<lambda>(p, y). p = 0 \<and> y = 1) pairs;
              precision = (if tp + fp \<noteq> 0 then int_truediv tp (tp + fp) else 0);
              recall = (if tp + fn \<noteq> 0 then int_truediv tp (tp + fn) else 0);
              fnr = (if tp + fn \<noteq> 0 then int_truediv fn (tp + fn) else 0);
              fpr = (if fp + tn \<noteq> 0 then int_truediv fp (fp + tn) else 0);
              f1 = (if fl (precision + recall) \<noteq> 0
                    then fl (fl (fl (2 * precision) * recall) / fl (precision + recall))
                    else 0)
          in \<lparr>thr = t, tp = tp, fp = fp, tn = tn, fn = fn,
                   precision = precision, recall = recall, fpr = fpr, fnr = fnr, f1 = f1\<rparr>)"
    unfolding metrics_at_threshold_def y_pred_of_def broadcast_map_left Let_def by simp
  show thesis
    by (rule that [OF sp]) (simp_all add: m Let_def c)
qed

lemma count_where_compl: "count_where Q xs + count_where (\<lambda>x. \<not> Q x) xs = length xs"
  unfolding count_where_def by (induction xs) auto

lemma count_where_labels:
  assumes "\<And>s y. (s, y) \<in> set sp \<Longrightarrow> y = 0 \<or> y = (1::int)"
  shows "count_where (\<lambda>(s, y). Q s \<and> y = 1) sp + count_where (\<lambda>(s, y). Q s \<and> y = 0) sp
       = count_where (\<lambda>(s, y). Q s) sp"
  using assms unfolding count_where_def by (induction sp) auto

lemma count_where_fst:
  assumes "length xs = length ys"
  shows "count_where (\<lambda>(s, y). Q s) (zip xs ys) = count_where Q xs"
proof -
  have "count_where Q (map fst (zip xs ys)) = count_where (\<lambda>(s, y). Q s) (zip xs ys)"
    unfolding count_where_map by (rule count_where_cong) auto
  then show ?thesis using assms by simp
qed

lemma count_where_snd:
  assumes "length xs = length ys"
  shows "count_where (\<lambda>(s, y). Q y) (zip xs ys) = count_where Q ys"
proof -
  have "count_where Q (map snd (zip xs ys)) = count_where (\<lambda>(s, y). Q y) (zip xs ys)"
    unfolding count_where_map by (rule count_where_cong) auto
  then show ?thesis using assms by simp
qed

lemma metrics_at_threshold_total:
  assumes "length y_true = length y_score"
  shows "\<exists>m. metrics_at_threshold y_true y_score t = Inr m"
  using assms by (simp add: metrics_at_threshold_def y_pred_of_def broadcast_def Let_def)

lemma broadcast_same_length:
  "length xs = length ys \<Longrightarrow> broadcast xs ys = Inr (zip xs ys)"
  by (simp add: broadcast_def)

text \<open>
  Claim C6. For labels and scores of equal length and every threshold \<open>t\<close>, the call
  returns a metrics row; a case is predicted positive exactly when its score is at least
  \<open>t\<close> (a score equal to \<open>t\<close> is positive), so \<open>tp + fp\<close> counts the scores \<open>\<ge> t\<close> and
  \<open>tn + fn\<close> the scores \<open>< t\<close>; and the four counts add up to the number of cases. The
  labels are booleans, that is \<open>0\<close> or \<open>1\<close> after \<^verbatim>\<open>astype(int)\<close>.
\<close>

theorem counts_sum_to_length:
  assumes len: "length y_true = length y_score" and lab: "set y_true \<subseteq> {0, 1}"
  shows "\<exists>m. metrics_at_threshold y_true y_score t = Inr m
       \<and> tp m + fp m + tn m + fn m = length y_true
       \<and> tp m + fp m = count_where (\<lambda>s. t \<le> s) y_score
       \<and> tn m + fn m = count_where (\<lambda>s. s < t) y_score
       \<and> (\<forall>i < length y_score. (y_pred_of y_score t ! i = 1) = (t \<le> y_score ! i))"
proof -
  from metrics_at_threshold_total [OF len] obtain m
    where m: "metrics_at_threshold y_true y_score t = Inr m" by blast
  from m obtain sp where sp: "broadcast y_score y_true = Inr sp"
    and c: "tp m = count_where (\<lambda>(s, y). t \<le> s \<and> y = 1) sp"
           "fp m = count_where (\<lambda>(s, y). t \<le> s \<and> y = 0) sp"
           "tn m = count_where (\<lambda>(s, y). \<not> t \<le> s \<and> y = 0) sp"
           "fn m = count_where (\<lambda>(s, y). \<not> t \<le> s \<and> y = 1) sp"
    by (rule metrics_at_threshold_Inr)
  have zip: "sp = zip y_score y_true" using sp len by (simp add: broadcast_same_length)
  have labs: "y = 0 \<or> y = 1" if "(s, y) \<in> set sp" for s y
    using that lab unfolding zip by (auto dest: set_zip_rightD)
  have pos: "tp m + fp m = count_where (\<lambda>s. t \<le> s) y_score"
    unfolding c using count_where_labels [of sp "\<lambda>s. t \<le> s"] labs
    by (simp add: zip count_where_fst len)
  have "tn m + fn m = count_where (\<lambda>s. \<not> t \<le> s) y_score"
    unfolding c using count_where_labels [of sp "\<lambda>s. \<not> t \<le> s"] labs
    by (simp add: zip count_where_fst len)
  then have neg: "tn m + fn m = count_where (\<lambda>s. s < t) y_score"
    by (simp add: not_le)
  have "tp m + fp m + (tn m + fn m) = length y_score"
    unfolding pos \<open>tn m + fn m = count_where (\<lambda>s. \<not> t \<le> s) y_score\<close>
    by (rule count_where_compl)
  then have total: "tp m + fp m + tn m + fn m = length y_true" using len by simp
  have pred: "\<forall>i < length y_score. (y_pred_of y_score t ! i = 1) = (t \<le> y_score ! i)"
    by (simp add: y_pred_of_def)
  from m total pos neg pred show ?thesis by blast
qed

text \<open>The theorem at the five cases of the end-to-end scenario, \<open>t = 0.6\<close>.\<close>

theorem counts_sum_to_length_witness:
  "length [1, 0, 1, 0, 1 :: int] = length [9 / 10, 2 / 10, 6 / 10, 4 / 10, 8 / 10 :: real]
   \<and> set [1, 0, 1, 0, 1 :: int] \<subseteq> {0, 1}
   \<and> (\<exists>m. metrics_at_threshold [1, 0, 1, 0, 1] [9 / 10, 2 / 10, 6 / 10, 4 / 10, 8 / 10] (6 / 10)
              = Inr m
          \<and> tp m + fp m + tn m + fn m = 5 \<and> tp m + fp m = 3 \<and> tn m + fn m = 2)"
proof -
  have l: "length [1, 0, 1, 0, 1 :: int] = length [9 / 10, 2 / 10, 6 / 10, 4 / 10, 8 / 10 :: real]"
    by simp
  have b: "set [1, 0, 1, 0, 1 :: int] \<subseteq> {0, 1}" by simp
  have c: "count_where (\<lambda>s. 6 / 10 \<le> s) [9 / 10, 2 / 10, 6 / 10, 4 / 10, 8 / 10 :: real] = 3"
          "count_where (\<lambda>s. s < 6 / 10) [9 / 10, 2 / 10, 6 / 10, 4 / 10, 8 / 10 :: real] = 2"
    by (simp_all add: count_where_def)
  from counts_sum_to_length [OF l b, of "6 / 10"] obtain m
    where m: "metrics_at_threshold [1, 0, 1, 0, 1] [9 / 10, 2 / 10, 6 / 10, 4 / 10, 8 / 10] (6 / 10)
                = Inr m"
      "tp m + fp m + tn m + fn m = length [1, 0, 1, 0, 1 :: int]"
      "tp m + fp m = count_where (\<lambda>s. 6 / 10 \<le> s) [9 / 10, 2 / 10, 6 / 10, 4 / 10, 8 / 10 :: real]"
      "tn m + fn m = count_where (\<lambda>s. s < 6 / 10) [9 / 10, 2 / 10, 6 / 10, 4 / 10, 8 / 10 :: real]"
    by blast
  have "tp m + fp m + tn m + fn m = 5 \<and> tp m + fp m = 3 \<and> tn m + fn m = 2"
    using m(2-4) unfolding c by simp
  with m(1) l b show ?thesis by blast
qed

lemma nat_ratio_unit:
  assumes "a \<le> b"
  shows "0 \<le> real a / real b" and "real a / real b \<le> 1"
  using assms by (cases "b = 0"; simp add: divide_le_eq_1)+

lemma int_truediv_bounds:
  assumes "a \<le> b"
  shows "0 \<le> int_truediv a b" and "int_truediv a b \<le> 1"
  unfolding int_truediv_def
  using nat_ratio_unit [OF assms] by (simp_all add: fl_nonneg fl_le_1)

lemma is_double_int_truediv: "is_double (int_truediv a b)"
  unfolding int_truediv_def by (rule is_double_fl)

lemma is_double_0: "is_double 0"
  by (simp add: is_double_def fl_0)

lemma f1_bounds:
  assumes p: "0 \<le> p" "p \<le> 1" "is_double p" and r: "0 \<le> r" "r \<le> 1"
    and d: "fl (p + r) \<noteq> 0"
  shows "0 \<le> fl (fl (fl (2 * p) * r) / fl (p + r))"
    and "fl (fl (fl (2 * p) * r) / fl (p + r)) \<le> 1"
proof -
  have two: "fl (2 * p) = 2 * p" using p by (intro fl_twice)
  have D: "0 < fl (p + r)" using fl_nonneg [of "p + r"] p r d by simp
  have N0: "0 \<le> fl (2 * p * r)" using p r by (intro fl_nonneg) simp
  have "p * r \<le> p * 1" using p r by (intro mult_left_mono) simp_all
  moreover have "p * r \<le> 1 * r" using p r by (intro mult_right_mono) simp_all
  ultimately have "2 * p * r \<le> p + r" by simp
  then have ND: "fl (2 * p * r) \<le> fl (p + r)" by (rule fl_mono)
  have "0 \<le> fl (2 * p * r) / fl (p + r)" using N0 D by simp
  then show "0 \<le> fl (fl (fl (2 * p) * r) / fl (p + r))" unfolding two by (rule fl_nonneg)
  have "fl (2 * p * r) / fl (p + r) \<le> 1" using ND D by (simp add: divide_le_eq_1)
  then show "fl (fl (fl (2 * p) * r) / fl (p + r)) \<le> 1" unfolding two by (rule fl_le_1)
qed

lemma fnr_recall_error:
  assumes "0 < a + b"
  shows "\<bar>int_truediv b (a + b) - (1 - int_truediv a (a + b))\<bar> \<le> 1 / 2 ^ 53"
proof -
  define x where "x = real a / real (a + b)"
  define y where "y = real b / real (a + b)"
  have "0 < real (a + b)" using assms by (simp only: of_nat_0_less_iff)
  then have nz: "real (a + b) \<noteq> 0" by simp
  have "x + y = (real a + real b) / real (a + b)"
    unfolding x_def y_def by (rule add_divide_distrib [symmetric])
  also have "\<dots> = real (a + b) / real (a + b)" by simp
  also have "\<dots> = 1" using nz by (rule divide_self)
  finally have s: "x + y = 1" .
  have x: "0 \<le> x" "x \<le> 1" unfolding x_def by (rule nat_ratio_unit; simp)+
  have y: "0 \<le> y" "y \<le> 1" unfolding y_def by (rule nat_ratio_unit; simp)+
  have ex: "\<bar>fl x - x\<bar> \<le> 1 / 2 ^ 54" using x by (rule fl_unit_error)
  have ey: "\<bar>fl y - y\<bar> \<le> 1 / 2 ^ 54" using y by (rule fl_unit_error)
  have "fl y - (1 - fl x) = (fl y - y) + (fl x - x)" using s by simp
  then have "\<bar>fl y - (1 - fl x)\<bar> \<le> \<bar>fl y - y\<bar> + \<bar>fl x - x\<bar>" by simp
  also have "\<dots> \<le> 1 / 2 ^ 54 + 1 / 2 ^ 54" using ex ey by (rule add_mono [rotated])
  also have "\<dots> = 1 / 2 ^ 53" by simp
  finally show ?thesis by (simp add: int_truediv_def x_def y_def)
qed

text \<open>
  Claim C5, as the code has it. Every ratio of a metrics row lies in \<open>[0, 1]\<close>; a ratio
  whose denominator is zero is \<open>0\<close>; and when \<open>tp + fn > 0\<close> the false-negative rate is the
  correctly rounded quotient \<open>fn / (tp + fn)\<close>, which is within \<open>2\<^sup>-\<^sup>5\<^sup>3\<close> of \<open>1 - recall\<close>.
\<close>

theorem metrics_ratios:
  assumes "metrics_at_threshold y_true y_score t = Inr m"
  shows "0 \<le> precision m \<and> precision m \<le> 1
       \<and> 0 \<le> recall m \<and> recall m \<le> 1
       \<and> 0 \<le> fpr m \<and> fpr m \<le> 1
       \<and> 0 \<le> fnr m \<and> fnr m \<le> 1
       \<and> 0 \<le> f1 m \<and> f1 m \<le> 1
       \<and> (tp m + fp m = 0 \<longrightarrow> precision m = 0)
       \<and> (tp m + fn m = 0 \<longrightarrow> recall m = 0 \<and> fnr m = 0)
       \<and> (fp m + tn m = 0 \<longrightarrow> fpr m = 0)
       \<and> (precision m + recall m = 0 \<longrightarrow> f1 m = 0)
       \<and> (0 < tp m + fn m \<longrightarrow>
            fnr m = fl (real (fn m) / real (tp m + fn m))
          \<and> \<bar>fnr m - (1 - recall m)\<bar> \<le> 1 / 2 ^ 53)"
proof -
  from assms obtain sp where
        P: "precision m = (if tp m + fp m \<noteq> 0 then int_truediv (tp m) (tp m + fp m) else 0)"
    and R: "recall m = (if tp m + fn m \<noteq> 0 then int_truediv (tp m) (tp m + fn m) else 0)"
    and N: "fnr m = (if tp m + fn m \<noteq> 0 then int_truediv (fn m) (tp m + fn m) else 0)"
    and F: "fpr m = (if fp m + tn m \<noteq> 0 then int_truediv (fp m) (fp m + tn m) else 0)"
    and F1: "f1 m = (if fl (precision m + recall m) \<noteq> 0
                 then fl (fl (fl (2 * precision m) * recall m) / fl (precision m + recall m))
                 else 0)"
    by (rule metrics_at_threshold_Inr)
  have p: "0 \<le> precision m" "precision m \<le> 1"
    unfolding P using int_truediv_bounds [of "tp m" "tp m + fp m"] by simp_all
  have pd: "is_double (precision m)"
    unfolding P by (simp add: is_double_int_truediv is_double_0)
  have r: "0 \<le> recall m" "recall m \<le> 1"
    unfolding R using int_truediv_bounds [of "tp m" "tp m + fn m"] by simp_all
  have n: "0 \<le> fnr m" "fnr m \<le> 1"
    unfolding N using int_truediv_bounds [of "fn m" "tp m + fn m"] by simp_all
  have f: "0 \<le> fpr m" "fpr m \<le> 1"
    unfolding F using int_truediv_bounds [of "fp m" "fp m + tn m"] by simp_all
  have f1: "0 \<le> f1 m" "f1 m \<le> 1"
    using f1_bounds [OF p pd r] by (simp_all add: F1)
  have z1: "tp m + fp m = 0 \<longrightarrow> precision m = 0" by (simp add: P)
  have z2: "tp m + fn m = 0 \<longrightarrow> recall m = 0 \<and> fnr m = 0" by (simp add: R N)
  have z3: "fp m + tn m = 0 \<longrightarrow> fpr m = 0" by (simp add: F)
  have z4: "precision m + recall m = 0 \<longrightarrow> f1 m = 0"
  proof
    assume "precision m + recall m = 0"
    then have "fl (precision m + recall m) = 0" by (simp add: fl_0)
    then show "f1 m = 0" by (simp add: F1)
  qed
  have e: "0 < tp m + fn m \<longrightarrow>
            fnr m = fl (real (fn m) / real (tp m + fn m))
          \<and> \<bar>fnr m - (1 - recall m)\<bar> \<le> 1 / 2 ^ 53"
  proof
    assume pos: "0 < tp m + fn m"
    then have "fnr m = int_truediv (fn m) (tp m + fn m)"
      and "recall m = int_truediv (tp m) (tp m + fn m)" by (simp_all add: N R)
    then show "fnr m = fl (real (fn m) / real (tp m + fn m))
          \<and> \<bar>fnr m - (1 - recall m)\<bar> \<le> 1 / 2 ^ 53"
      using fnr_recall_error [OF pos] by (simp add: int_truediv_def)
  qed
  from p r f n f1 z1 z2 z3 z4 e show ?thesis by blast
qed

text \<open>
  The theorem at two datasets: three positives of which one is found (\<open>tp + fn > 0\<close>,
  \<open>fp + tn = 0\<close>), and a single negative below the threshold (\<open>tp + fp = 0\<close>,
  \<open>tp + fn = 0\<close>, \<open>precision + recall = 0\<close>).
\<close>

theorem metrics_ratios_witness:
  "metrics_at_threshold [1, 1, 1] [9 / 10, 1 / 10, 1 / 10] (1 / 2)
     = Inr \<lparr>thr = 1 / 2, tp = 1, fp = 0, tn = 0, fn = 2,
            precision = 1, recall = 6004799503160661 / 18014398509481984, fpr = 0,
            fnr = 6004799503160661 / 9007199254740992, f1 = 1 / 2\<rparr>
   \<and> \<bar>(6004799503160661 / 9007199254740992 :: real)
        - (1 - 6004799503160661 / 18014398509481984)\<bar> \<le> 1 / 2 ^ 53
   \<and> fl (real 2 / real (1 + 2)) = 6004799503160661 / 9007199254740992
   \<and> metrics_at_threshold [0] [1 / 10] (1 / 2)
     = Inr \<lparr>thr = 1 / 2, tp = 0, fp = 0, tn = 1, fn = 0,
            precision = 0, recall = 0, fpr = 0, fnr = 0, f1 = 0\<rparr>"
proof -
  have a: "metrics_at_threshold [1, 1, 1] [9 / 10, 1 / 10, 1 / 10] (1 / 2)
     = Inr \<lparr>thr = 1 / 2, tp = 1, fp = 0, tn = 0, fn = 2,
            precision = 1, recall = 6004799503160661 / 18014398509481984, fpr = 0,
            fnr = 6004799503160661 / 9007199254740992, f1 = 1 / 2\<rparr>"
    by code_simp
  have b: "metrics_at_threshold [0] [1 / 10] (1 / 2)
     = Inr \<lparr>thr = 1 / 2, tp = 0, fp = 0, tn = 1, fn = 0,
            precision = 0, recall = 0, fpr = 0, fnr = 0, f1 = 0\<rparr>"
    by code_simp
  from metrics_ratios [OF a] metrics_ratios [OF b] a b show ?thesis by simp
qed

text \<open>
  Claim C5 as stated has \<open>fnr = 1 - recall\<close> exactly whenever \<open>tp + fn > 0\<close>. With one of
  three positives found, \<open>recall\<close> is the double nearest to \<open>1/3\<close> and \<open>fnr\<close> the double
  nearest to \<open>2/3\<close>; their sum is not \<open>1\<close>, and the floating-point difference
  \<open>1 - recall\<close> is the next double above \<open>fnr\<close>.
\<close>

theorem fnr_one_minus_recall_counterexample:
  "metrics_at_threshold [1, 1, 1] [9 / 10, 1 / 10, 1 / 10] (1 / 2)
     = Inr \<lparr>thr = 1 / 2, tp = 1, fp = 0, tn = 0, fn = 2,
            precision = 1, recall = 6004799503160661 / 18014398509481984, fpr = 0,
            fnr = 6004799503160661 / 9007199254740992, f1 = 1 / 2\<rparr>
   \<and> (6004799503160661 / 9007199254740992 :: real) \<noteq> 1 - 6004799503160661 / 18014398509481984
   \<and> fl (1 - 6004799503160661 / 18014398509481984) = 6004799503160662 / 9007199254740992"
  by code_simp

subsection \<open>Sweep\<close>

lemma count_where_positive_split:
  "count_where (\<lambda>(s, y). Q s \<and> y = b) sp + count_where (\<lambda>(s, y). \<not> Q s \<and> y = b) sp
     = count_where (\<lambda>(s, y). y = b) sp"
  unfolding count_where_def by (induction sp) auto

lemma metrics_recall_antimono:
  assumes m: "metrics_at_threshold y_true y_score t = Inr m"
    and m': "metrics_at_threshold y_true y_score t' = Inr m'"
    and le: "t \<le> t'"
  shows "recall m' \<le> recall m"
    and "tp m + fn m = tp m' + fn m'"
    and "length y_true = length y_score \<Longrightarrow> tp m + fn m = count_where (\<lambda>y. y = 1) y_true"
proof -
  from m obtain sp where sp: "broadcast y_score y_true = Inr sp"
    and c: "tp m = count_where (\<lambda>(s, y). t \<le> s \<and> y = 1) sp"
           "fn m = count_where (\<lambda>(s, y). \<not> t \<le> s \<and> y = 1) sp"
    and R: "recall m = (if tp m + fn m \<noteq> 0 then int_truediv (tp m) (tp m + fn m) else 0)"
    by (rule metrics_at_threshold_Inr)
  from m' obtain sp' where sp': "broadcast y_score y_true = Inr sp'"
    and c': "tp m' = count_where (\<lambda>(s, y). t' \<le> s \<and> y = 1) sp'"
            "fn m' = count_where (\<lambda>(s, y). \<not> t' \<le> s \<and> y = 1) sp'"
    and R': "recall m' = (if tp m' + fn m' \<noteq> 0 then int_truediv (tp m') (tp m' + fn m') else 0)"
    by (rule metrics_at_threshold_Inr)
  have same: "sp' = sp" using sp sp' by simp
  have pos: "tp m + fn m = count_where (\<lambda>(s, y). y = 1) sp"
    unfolding c by (rule count_where_positive_split)
  have pos': "tp m' + fn m' = count_where (\<lambda>(s, y). y = 1) sp"
    unfolding c' same by (rule count_where_positive_split)
  show eq: "tp m + fn m = tp m' + fn m'" by (simp only: pos pos')
  have tple: "tp m' \<le> tp m"
    unfolding c c' same using le by (intro count_where_mono) auto
  show "recall m' \<le> recall m"
  proof (cases "tp m + fn m = 0")
    case True
    then show ?thesis using eq by (simp add: R R')
  next
    case False
    have "real (tp m') / real (tp m + fn m) \<le> real (tp m) / real (tp m + fn m)"
      using tple by (intro divide_right_mono) simp_all
    then have "int_truediv (tp m') (tp m + fn m) \<le> int_truediv (tp m) (tp m + fn m)"
      unfolding int_truediv_def by (rule fl_mono)
    then show ?thesis using False eq by (simp add: R R')
  qed
  show "tp m + fn m = count_where (\<lambda>y. y = 1) y_true" if "length y_true = length y_score"
  proof -
    have "sp = zip y_score y_true" using sp that by (simp add: broadcast_same_length)
    then show ?thesis using that by (simp add: pos count_where_snd)
  qed
qed

lemma collect_Inr: "collect xs = Inr ys \<Longrightarrow> xs = map Inr ys"
proof (induction xs arbitrary: ys)
  case Nil
  then show ?case by simp
next
  case (Cons x xs)
  then show ?case by (cases x) (auto split: sum.splits)
qed

lemma threshold_sweep_Inr:
  assumes "threshold_sweep y_true y_score step = Inr df"
  shows "\<exists>ths. thresholds_of step = Inr ths \<and> length (rows df) = length ths
     \<and> (\<forall>i < length ths. metrics_at_threshold y_true y_score (ths ! i) = Inr (rows df ! i))"
proof -
  from assms obtain ths rs where ths: "thresholds_of step = Inr ths"
    and rs: "collect (map (metrics_at_threshold y_true y_score) ths) = Inr rs"
    and df: "df = DataFrame rs"
    by (auto simp: threshold_sweep_def split: sum.splits)
  from collect_Inr [OF rs] have eq: "map (metrics_at_threshold y_true y_score) ths = map Inr rs" .
  then have len: "length rs = length ths" by (metis length_map)
  have "metrics_at_threshold y_true y_score (ths ! i) = Inr (rs ! i)" if "i < length ths" for i
    using that eq len by (metis nth_map)
  then show ?thesis using ths len by (simp add: df DataFrame_def)
qed

lemma arange_from_step:
  assumes d: "is_double step" and pos: "0 < step"
  shows "arange step stop step =
     (if npy_max_length < \<lceil>fl (fl (stop - step) / step)\<rceil> then Inl ValueError
      else Inr (map (\<lambda>i. fl (step + fl (real i * step)))
                  [0..<nat \<lceil>fl (fl (stop - step) / step)\<rceil>]))"
proof -
  have s: "fl step = step" using d by (simp add: is_double_def)
  have two: "fl (2 * step) = 2 * step" using fl_twice [OF d] pos by simp
  have delta: "fl (fl (2 * step) - step) = step" by (simp add: two s)
  show ?thesis using pos by (simp add: arange_def Let_def delta two s fl_0)
qed

lemma np_round2_mono: "x \<le> y \<Longrightarrow> np_round2 x \<le> np_round2 y"
proof -
  assume "x \<le> y"
  then have "x * 100 \<le> y * 100" by simp
  then have "fl (x * 100) \<le> fl (y * 100)" by (rule fl_mono)
  then have "rint (fl (x * 100)) \<le> rint (fl (y * 100))" by (rule rint_mono)
  then have "real_of_int (rint (fl (x * 100))) / 100 \<le> real_of_int (rint (fl (y * 100))) / 100"
    by simp
  then show ?thesis unfolding np_round2_def by (rule fl_mono)
qed

lemma thresholds_of_nth:
  assumes d: "is_double step" and pos: "0 < step" and ths: "thresholds_of step = Inr ths"
  shows "length ths = nat \<lceil>fl (fl (1 - step) / step)\<rceil>"
    and "\<lceil>fl (fl (1 - step) / step)\<rceil> \<le> npy_max_length"
    and "i < length ths \<Longrightarrow> ths ! i = np_round2 (fl (step + fl (real i * step)))"
proof -
  from ths show small: "\<lceil>fl (fl (1 - step) / step)\<rceil> \<le> npy_max_length"
    by (simp add: thresholds_of_def arange_from_step [OF d pos] split: if_splits)
  with ths have eq: "ths = map np_round2
      (map (\<lambda>i. fl (step + fl (real i * step))) [0..<nat \<lceil>fl (fl (1 - step) / step)\<rceil>])"
    by (simp add: thresholds_of_def arange_from_step [OF d pos])
  show "length ths = nat \<lceil>fl (fl (1 - step) / step)\<rceil>" by (simp add: eq)
  show "ths ! i = np_round2 (fl (step + fl (real i * step)))" if "i < length ths"
    using that by (simp add: eq)
qed

lemma thresholds_of_mono:
  assumes d: "is_double step" and pos: "0 < step" and ths: "thresholds_of step = Inr ths"
    and ij: "i \<le> j" "j < length ths"
  shows "ths ! i \<le> ths ! j"
proof -
  have "real i * step \<le> real j * step" using ij pos by simp
  then have "fl (real i * step) \<le> fl (real j * step)" by (rule fl_mono)
  then have "step + fl (real i * step) \<le> step + fl (real j * step)" by simp
  then have "fl (step + fl (real i * step)) \<le> fl (step + fl (real j * step))" by (rule fl_mono)
  then have "np_round2 (fl (step + fl (real i * step))) \<le> np_round2 (fl (step + fl (real j * step)))"
    by (rule np_round2_mono)
  then show ?thesis using thresholds_of_nth(3) [OF d pos ths] ij by simp
qed

text \<open>
  Claim C7. In a sweep of a labelled dataset (step a positive float), the rows are in
  ascending threshold order; from any row to a later one recall does not increase and
  \<open>tp + fn\<close> does not change; for labels and scores of equal length \<open>tp + fn\<close> is the number
  of positive labels.
\<close>

theorem sweep_recall_nonincreasing:
  assumes d: "is_double step" and pos: "0 < step"
    and sw: "threshold_sweep y_true y_score step = Inr df"
    and ij: "i \<le> j" "j < length (rows df)"
  shows "thr (rows df ! i) \<le> thr (rows df ! j)
       \<and> recall (rows df ! j) \<le> recall (rows df ! i)
       \<and> tp (rows df ! i) + fn (rows df ! i) = tp (rows df ! j) + fn (rows df ! j)
       \<and> (length y_true = length y_score \<longrightarrow>
            tp (rows df ! j) + fn (rows df ! j) = count_where (\<lambda>y. y = 1) y_true)"
proof -
  from threshold_sweep_Inr [OF sw] obtain ths where ths: "thresholds_of step = Inr ths"
    and len: "length (rows df) = length ths"
    and row: "\<And>k. k < length ths \<Longrightarrow>
                  metrics_at_threshold y_true y_score (ths ! k) = Inr (rows df ! k)"
    by blast
  have j: "j < length ths" and i: "i < length ths" using ij len by simp_all
  have le: "ths ! i \<le> ths ! j" using d pos ths ij(1) j by (rule thresholds_of_mono)
  have ti: "thr (rows df ! i) = ths ! i"
    using row [OF i] by (rule metrics_at_threshold_Inr)
  have tj: "thr (rows df ! j) = ths ! j"
    using row [OF j] by (rule metrics_at_threshold_Inr)
  note mono = metrics_recall_antimono [OF row [OF i] row [OF j] le]
  have "length y_true = length y_score \<longrightarrow>
            tp (rows df ! j) + fn (rows df ! j) = count_where (\<lambda>y. y = 1) y_true"
    using metrics_recall_antimono(3) [OF row [OF j] row [OF j]] by simp
  with mono(1,2) le show ?thesis by (simp add: ti tj)
qed

text \<open>The theorem at the five cases of the end-to-end scenario, swept with step \<open>0.25\<close>.\<close>

theorem sweep_recall_nonincreasing_witness:
  "is_double (1 / 4) \<and> (0 :: real) < 1 / 4
   \<and> threshold_sweep [1, 0, 1, 0, 1] [9 / 10, 2 / 10, 6 / 10, 4 / 10, 8 / 10] (1 / 4)
     = Inr \<lparr>columns = metric_columns,
            rows = [\<lparr>thr = 1 / 4, tp = 3, fp = 1, tn = 1, fn = 0, precision = 3 / 4,
                      recall = 1, fpr = 1 / 2, fnr = 0,
                      f1 = 7720456504063707 / 9007199254740992\<rparr>,
                    \<lparr>thr = 1 / 2, tp = 3, fp = 0, tn = 2, fn = 0, precision = 1,
                      recall = 1, fpr = 0, fnr = 0, f1 = 1\<rparr>,
                    \<lparr>thr = 3 / 4, tp = 2, fp = 0, tn = 2, fn = 1, precision = 1,
                      recall = 6004799503160661 / 9007199254740992, fpr = 0,
                      fnr = 6004799503160661 / 18014398509481984,
                      f1 = 3602879701896397 / 4503599627370496\<rparr>]\<rparr>
   \<and> (0 :: nat) \<le> 2
   \<and> length [1, 0, 1, 0, 1 :: int] = length [9 / 10, 2 / 10, 6 / 10, 4 / 10, 8 / 10 :: real]
   \<and> (6004799503160661 / 9007199254740992 :: real) \<le> 1
   \<and> count_where (\<lambda>y. y = 1) [1, 0, 1, 0, 1 :: int] = 2 + 1"
proof -
  have d: "is_double (1 / 4)" by code_simp
  have p: "(0 :: real) < 1 / 4" by simp
  have s: "threshold_sweep [1, 0, 1, 0, 1] [9 / 10, 2 / 10, 6 / 10, 4 / 10, 8 / 10] (1 / 4)
     = Inr \<lparr>columns = metric_columns,
            rows = [\<lparr>thr = 1 / 4, tp = 3, fp = 1, tn = 1, fn = 0, precision = 3 / 4,
                      recall = 1, fpr = 1 / 2, fnr = 0,
                      f1 = 7720456504063707 / 9007199254740992\<rparr>,
                    \<lparr>thr = 1 / 2, tp = 3, fp = 0, tn = 2, fn = 0, precision = 1,
                      recall = 1, fpr = 0, fnr = 0, f1 = 1\<rparr>,
                    \<lparr>thr = 3 / 4, tp = 2, fp = 0, tn = 2, fn = 1, precision = 1,
                      recall = 6004799503160661 / 9007199254740992, fpr = 0,
                      fnr = 6004799503160661 / 18014398509481984,
                      f1 = 3602879701896397 / 4503599627370496\<rparr>]\<rparr>"
    by code_simp
  have ij: "(0 :: nat) \<le> 2" by simp
  have j: "2 < length (rows \<lparr>columns = metric_columns,
            rows = [\<lparr>thr = 1 / 4, tp = 3, fp = 1, tn = 1, fn = 0, precision = 3 / 4,
                      recall = 1, fpr = 1 / 2, fnr = 0,
                      f1 = 7720456504063707 / 9007199254740992\<rparr>,
                    \<lparr>thr = 1 / 2, tp = 3, fp = 0, tn = 2, fn = 0, precision = 1,
                      recall = 1, fpr = 0, fnr = 0, f1 = 1\<rparr>,
                    \<lparr>thr = 3 / 4, tp = 2, fp = 0, tn = 2, fn = 1, precision = 1,
                      recall = 6004799503160661 / 9007199254740992, fpr = 0,
                      fnr = 6004799503160661 / 18014398509481984,
                      f1 = 3602879701896397 / 4503599627370496\<rparr>]\<rparr>)"
    by simp
  from sweep_recall_nonincreasing [OF d p s ij j] d s show ?thesis by simp
qed

subsection \<open>Grid\<close>




lemma tiny_step_grid: "thresholds_of (1 / 2 ^ 70) = Inl ValueError"
  by (simp add: thresholds_of_def arange_def npy_max_length_def fl_eval)




subsection \<open>Selector\<close>

lemma sort_key_head_least:
  assumes "sort_key f xs = b # rest"
  shows "b \<in> set xs" and "\<And>x. x \<in> set xs \<Longrightarrow> f b \<le> f x"
proof -
  have s: "set (b # rest) = set xs" using assms by (metis set_sort)
  then show "b \<in> set xs" by auto
  have "sorted (map f (b # rest))" using assms by (metis sorted_sort_key)
  then have "\<forall>y \<in> set rest. f b \<le> f y" by simp
  then show "f b \<le> f x" if "x \<in> set xs" for x using that s by auto
qed

lemma sort_key_Nil_iff: "sort_key f xs = [] \<longleftrightarrow> xs = []"
  by (metis length_sort length_0_conv)

lemma lex_pair_le:
  "((a::real), (b::real)) \<le> (c, d) \<longleftrightarrow> a < c \<or> (a = c \<and> b \<le> d)"
  by (auto simp: less_eq_prod_def)

lemma candidates_Inr:
  assumes "has_sweep_columns df"
  shows "candidates df pf = Inr (case pf of None \<Rightarrow> rows df
           | Some p \<Rightarrow> if filter (\<lambda>r. p \<le> precision r) (rows df) = [] then rows df
                       else filter (\<lambda>r. p \<le> precision r) (rows df))"
  using assms by (simp add: candidates_def has_sweep_columns_def Let_def split: option.splits)

lemma candidates_nonempty:
  assumes "has_sweep_columns df" and "rows df \<noteq> []" and "candidates df pf = Inr cand"
  shows "cand \<noteq> []" and "set cand \<subseteq> set (rows df)"
  using assms by (auto simp: candidates_Inr split: option.splits if_splits)

lemma pick_threshold_best:
  assumes c: "has_sweep_columns df" and cand: "candidates df pf = Inr cand" and ne: "cand \<noteq> []"
  shows "\<exists>b \<in> set cand. pick_threshold df pf = Inr (thr b)
           \<and> (\<forall>r \<in> set cand. fnr b \<le> fnr r)
           \<and> (\<forall>r \<in> set cand. fnr r = fnr b \<longrightarrow> thr b \<le> thr r)"
proof -
  from ne obtain b rest where s: "sort_key (\<lambda>r. (fnr r, thr r)) cand = b # rest"
    by (cases "sort_key (\<lambda>r. (fnr r, thr r)) cand") (simp_all add: sort_key_Nil_iff)
  have p: "pick_threshold df pf = Inr (thr b)"
    using c by (simp add: pick_threshold_def cand s has_sweep_columns_def)
  note h = sort_key_head_least [OF s]
  have le: "(fnr b, thr b) \<le> (fnr r, thr r)" if "r \<in> set cand" for r by (rule h(2) [OF that])
  have "fnr b \<le> fnr r" if "r \<in> set cand" for r using le [OF that] by (auto simp: lex_pair_le)
  moreover have "thr b \<le> thr r" if "r \<in> set cand" "fnr r = fnr b" for r
    using le [OF that(1)] that(2) by (auto simp: lex_pair_le)
  ultimately show ?thesis using h(1) p by blast
qed

lemma synthetic_row_sel:
  "thr (synthetic_row t p n) = t" "precision (synthetic_row t p n) = p"
  "fnr (synthetic_row t p n) = n"
  by (simp_all add: synthetic_row_def)

lemma candidates_set:
  assumes "has_sweep_columns df" and "candidates df pf = Inr cand"
  shows "set cand =
     (case pf of
        None \<Rightarrow> set (rows df)
      | Some p \<Rightarrow>
          if \<exists>r \<in> set (rows df). p \<le> precision r
          then {r \<in> set (rows df). p \<le> precision r}
          else set (rows df))"
  using assms
  by (auto simp: candidates_Inr filter_empty_conv split: option.splits if_splits)

text \<open>
  Claim C2. For every non-empty sweep table and every precision floor (also \<^verbatim>\<open>None\<close>),
  take as candidates the rows whose precision is at least the floor, or all rows when the
  floor is \<^verbatim>\<open>None\<close> or no row reaches it. The result is the threshold of a candidate whose
  false-negative rate is minimal among the candidates, and no candidate with that same rate
  has a smaller threshold. The result is a function of the table and the floor.
\<close>

theorem pick_threshold_tie_break:
  assumes "has_sweep_columns sweep_df" and "rows sweep_df \<noteq> []"
  shows "let C = (case precision_floor of
                    None \<Rightarrow> set (rows sweep_df)
                  | Some pf \<Rightarrow>
                      if \<exists>r \<in> set (rows sweep_df). pf \<le> precision r
                      then {r \<in> set (rows sweep_df). pf \<le> precision r}
                      else set (rows sweep_df))
         in \<exists>b \<in> C. pick_threshold sweep_df precision_floor = Inr (thr b)
               \<and> (\<forall>r \<in> C. fnr b \<le> fnr r)
               \<and> (\<forall>r \<in> C. fnr r = fnr b \<longrightarrow> thr b \<le> thr r)"
proof -
  obtain cand where c: "candidates sweep_df precision_floor = Inr cand"
    using candidates_Inr [OF assms(1)] by blast
  have ne: "cand \<noteq> []" using assms c by (rule candidates_nonempty)
  from pick_threshold_best [OF assms(1) c ne] show ?thesis
    unfolding Let_def candidates_set [OF assms(1) c, symmetric] .
qed

text \<open>
  The theorem at the synthetic sweep with minimal rate at \<open>t = 0.6\<close> and \<open>t = 0.3\<close>: without
  a floor, and with the floor \<open>0.35\<close> that both rows meet, the selector returns \<open>0.3\<close>; with
  the floor \<open>0.45\<close>, which only the row at \<open>t = 0.6\<close> meets, it returns \<open>0.6\<close>.
\<close>

theorem pick_threshold_tie_break_witness:
  "has_sweep_columns tie_sweep \<and> rows tie_sweep \<noteq> []
   \<and> pick_threshold tie_sweep None = Inr (3 / 10)
   \<and> pick_threshold tie_sweep (Some (35 / 100)) = Inr (3 / 10)
   \<and> pick_threshold tie_sweep (Some (45 / 100)) = Inr (6 / 10)"
proof -
  have a: "has_sweep_columns tie_sweep" by code_simp
  have b: "rows tie_sweep \<noteq> []" by code_simp
  have r: "rows tie_sweep =
     [synthetic_row (6 / 10) (1 / 2) (2 / 10),
      synthetic_row (3 / 10) (4 / 10) (2 / 10),
      synthetic_row (1 / 10) (3 / 10) (5 / 10)]"
    by (simp add: tie_sweep_def synthetic_sweep_def)
  have p1: "pick_threshold tie_sweep None = Inr (3 / 10)"
    using pick_threshold_tie_break [OF a b, of None]
    by (simp add: r synthetic_row_sel)
  have p2: "pick_threshold tie_sweep (Some (35 / 100)) = Inr (3 / 10)"
    using pick_threshold_tie_break [OF a b, of "Some (35 / 100)"]
    by (auto simp: r synthetic_row_sel)
  have p3: "pick_threshold tie_sweep (Some (45 / 100)) = Inr (6 / 10)"
    using pick_threshold_tie_break [OF a b, of "Some (45 / 100)"]
    by (auto simp: r synthetic_row_sel)
  from a b p1 p2 p3 show ?thesis by simp
qed

lemma tie_sweep_ok: "has_sweep_columns tie_sweep" "rows tie_sweep \<noteq> []"
  by (simp_all add: has_sweep_columns_def tie_sweep_def synthetic_sweep_def metric_columns_def)

text \<open>
  Claim C10. For every non-empty sweep table and every precision floor (also \<^verbatim>\<open>None\<close>),
  whether the floor can be met or not, the result is the threshold of one of the rows of
  the table.
\<close>

theorem pick_threshold_in_sweep:
  assumes "has_sweep_columns sweep_df" and "rows sweep_df \<noteq> []"
  shows "\<exists>b \<in> set (rows sweep_df). pick_threshold sweep_df precision_floor = Inr (thr b)"
proof -
  obtain cand where c: "candidates sweep_df precision_floor = Inr cand"
    using candidates_Inr [OF assms(1)] by blast
  have ne: "cand \<noteq> []" and sub: "set cand \<subseteq> set (rows sweep_df)"
    using assms c by (rule candidates_nonempty)+
  from pick_threshold_best [OF assms(1) c ne] sub show ?thesis by blast
qed

text \<open>
  The theorem at the synthetic sweep with the floor \<open>0.45\<close>, which only the row at
  \<open>t = 0.6\<close> meets.
\<close>

theorem pick_threshold_in_sweep_witness:
  "has_sweep_columns tie_sweep \<and> rows tie_sweep \<noteq> []
   \<and> pick_threshold tie_sweep (Some (45 / 100)) = Inr (6 / 10)
   \<and> 6 / 10 \<in> thr ` set (rows tie_sweep)"
proof -
  have p: "pick_threshold tie_sweep (Some (45 / 100)) = Inr (6 / 10)" by code_simp
  from pick_threshold_in_sweep [OF tie_sweep_ok, of "Some (45 / 100)"] tie_sweep_ok p
  show ?thesis by auto
qed

text \<open>
  Claim C1, as the code has it. When no row meets the precision floor, the selector
  returns what it returns without a floor: the threshold of a row whose false-negative
  rate is minimal over the whole sweep (the smallest such threshold). The result is a
  bare float.
\<close>

theorem pick_threshold_fallback:
  assumes "has_sweep_columns sweep_df" and "rows sweep_df \<noteq> []"
    and none: "\<forall>r \<in> set (rows sweep_df). \<not> pf \<le> precision r"
  shows "pick_threshold sweep_df (Some pf) = pick_threshold sweep_df None
       \<and> (\<exists>b \<in> set (rows sweep_df). pick_threshold sweep_df (Some pf) = Inr (thr b)
             \<and> (\<forall>r \<in> set (rows sweep_df). fnr b \<le> fnr r)
             \<and> (\<forall>r \<in> set (rows sweep_df). fnr r = fnr b \<longrightarrow> thr b \<le> thr r))"
proof -
  have e: "filter (\<lambda>r. pf \<le> precision r) (rows sweep_df) = []"
    using none by (simp add: filter_empty_conv)
  have c: "candidates sweep_df (Some pf) = Inr (rows sweep_df)"
    by (simp add: candidates_Inr [OF assms(1)] e)
  have c': "candidates sweep_df None = Inr (rows sweep_df)"
    by (simp add: candidates_Inr [OF assms(1)])
  have "pick_threshold sweep_df (Some pf) = pick_threshold sweep_df None"
    by (simp add: pick_threshold_def c c')
  with pick_threshold_best [OF assms(1) c assms(2)] show ?thesis by blast
qed

text \<open>The theorem at the synthetic sweep with the floor \<open>0.95\<close>, which no row meets.\<close>

theorem pick_threshold_fallback_witness:
  "has_sweep_columns tie_sweep \<and> rows tie_sweep \<noteq> []
   \<and> filter (\<lambda>r. 95 / 100 \<le> precision r) (rows tie_sweep) = []
   \<and> pick_threshold tie_sweep (Some (95 / 100)) = Inr (3 / 10)
   \<and> pick_threshold tie_sweep None = Inr (3 / 10)"
proof -
  have f: "filter (\<lambda>r. 95 / 100 \<le> precision r) (rows tie_sweep) = []"
    by (simp add: tie_sweep_def synthetic_sweep_def synthetic_row_def)
  then have n: "\<forall>r \<in> set (rows tie_sweep). \<not> 95 / 100 \<le> precision r"
    by (simp only: filter_empty_conv)
  have p: "pick_threshold tie_sweep None = Inr (3 / 10)" by code_simp
  from pick_threshold_fallback [OF tie_sweep_ok n] tie_sweep_ok f p show ?thesis by simp
qed

text \<open>
  Claim C1 as stated has the output flag that the constraint was relaxed. The output is
  the same float \<open>0.3\<close> when the floor \<open>0.95\<close> is relaxed (no row meets it) and when the
  floor \<open>0.35\<close> is satisfied (two rows meet it): nothing in it tells the two apart.
\<close>

theorem fallback_unflagged_counterexample:
  "filter (\<lambda>r. 95 / 100 \<le> precision r) (rows tie_sweep) = []
   \<and> pick_threshold tie_sweep (Some (95 / 100)) = Inr (3 / 10)
   \<and> filter (\<lambda>r. 35 / 100 \<le> precision r) (rows tie_sweep) \<noteq> []
   \<and> pick_threshold tie_sweep (Some (35 / 100)) = Inr (3 / 10)"
  by code_simp

text \<open>
  Claim C9, as the code has it. On a sweep table without rows the selector fails and
  returns nothing: with the IndexError of \<^verbatim>\<open>iloc[0]\<close> when the frame has the columns
  read, with the KeyError of the first missing column otherwise (the frame of an empty
  list of rows has no columns).
\<close>

theorem pick_threshold_empty:
  assumes "rows sweep_df = []"
  shows "pick_threshold sweep_df precision_floor =
     Inl (if precision_floor \<noteq> None \<and> ''precision'' \<notin> set (columns sweep_df)
          then KeyError ''precision''
          else if ''fnr'' \<notin> set (columns sweep_df) then KeyError ''fnr''
          else if ''t'' \<notin> set (columns sweep_df) then KeyError ''t''
          else IndexError)"
  using assms
  by (cases precision_floor) (simp_all add: pick_threshold_def candidates_def Let_def)

text \<open>The theorem at the two empty frames, with and without columns.\<close>

theorem pick_threshold_empty_witness:
  "rows (synthetic_sweep []) = [] \<and> rows (DataFrame []) = []
   \<and> pick_threshold (synthetic_sweep []) (Some (3 / 10)) = Inl IndexError
   \<and> pick_threshold (synthetic_sweep []) None = Inl IndexError
   \<and> pick_threshold (DataFrame []) (Some (3 / 10)) = Inl (KeyError ''precision'')
   \<and> pick_threshold (DataFrame []) None = Inl (KeyError ''fnr'')"
proof -
  have a: "rows (synthetic_sweep []) = []" by (simp add: synthetic_sweep_def)
  have b: "rows (DataFrame []) = []" by (simp add: DataFrame_def)
  have c: "columns (synthetic_sweep []) = metric_columns" "columns (DataFrame []) = []"
    by (simp_all add: synthetic_sweep_def DataFrame_def)
  from pick_threshold_empty [OF a, of "Some (3 / 10)"] pick_threshold_empty [OF a, of None]
    pick_threshold_empty [OF b, of "Some (3 / 10)"] pick_threshold_empty [OF b, of None] a b
  show ?thesis by (simp add: c metric_columns_def)
qed

text \<open>
  Claim C9 as stated has the failure be an InvalidInput error with a message naming the
  precondition. On the empty sweep table with the default floor the error is the
  IndexError of pandas.
\<close>

theorem empty_sweep_counterexample:
  "pick_threshold (synthetic_sweep []) (Some (3 / 10)) = Inl IndexError
   \<and> IndexError \<noteq> InvalidInput ''empty sweep''"
  by code_simp

subsection \<open>Band\<close>

text \<open>
  Claim C8, as the code has it. For every float \<open>t\<close> in \<open>[0, 1]\<close> and every band width
  \<open>\<ge> 0\<close>, \<open>t1 = max(0, t - band)\<close> and \<open>t2 = min(1, t + band)\<close> in floating point, so
  \<open>0 \<le> t1 \<le> t \<le> t2 \<le> 1\<close>; \<open>t1 = t2 = t\<close> when the band width is \<open>0\<close>, and only when the
  band width is at most \<open>2\<^sup>-\<^sup>5\<^sup>4\<close>.
\<close>

theorem band_invariant:
  assumes d: "is_double t" and t: "0 \<le> t" "t \<le> 1" and b: "0 \<le> band"
  shows "make_t1_t2 t band = (max 0 (fl (t - band)), min 1 (fl (t + band)))
       \<and> 0 \<le> fst (make_t1_t2 t band) \<and> fst (make_t1_t2 t band) \<le> t
       \<and> t \<le> snd (make_t1_t2 t band) \<and> snd (make_t1_t2 t band) \<le> 1
       \<and> (band = 0 \<longrightarrow> make_t1_t2 t band = (t, t))
       \<and> (make_t1_t2 t band = (t, t) \<longrightarrow> band \<le> 1 / 2 ^ 54)"
proof -
  have ft: "fl t = t" using d by (simp add: is_double_def)
  have lo: "fl (t - band) \<le> t" using fl_mono [of "t - band" t] b by (simp add: ft)
  have hi: "t \<le> fl (t + band)" using fl_mono [of t "t + band"] b by (simp add: ft)
  have eq: "make_t1_t2 t band = (max 0 (fl (t - band)), min 1 (fl (t + band)))"
    by (simp add: make_t1_t2_def)
  have zero: "band = 0 \<longrightarrow> make_t1_t2 t band = (t, t)"
    using t by (simp add: make_t1_t2_def ft)
  have small: "make_t1_t2 t band = (t, t) \<longrightarrow> band \<le> 1 / 2 ^ 54"
  proof
    assume "make_t1_t2 t band = (t, t)"
    then have t1: "max 0 (fl (t - band)) = t" and t2: "min 1 (fl (t + band)) = t"
      by (simp_all add: eq)
    show "band \<le> 1 / 2 ^ 54"
    proof (cases "t = 0")
      case True
      with t2 have z: "fl band = 0" by (simp add: min_def split: if_splits)
      have "band \<le> 1"
      proof (rule ccontr)
        assume "\<not> band \<le> 1"
        then have "fl 1 \<le> fl band" by (intro fl_mono) simp
        with z show False by (simp add: fl_1)
      qed
      with fl_unit_error [OF b] z show ?thesis by simp
    next
      case False
      with t have tpos: "0 < t" by simp
      with t1 have r: "fl (t - band) = t" by (simp add: max_def split: if_splits)
      have nn: "0 \<le> t - band"
      proof (rule ccontr)
        assume "\<not> 0 \<le> t - band"
        then have "fl (t - band) \<le> 0" by (intro fl_nonpos) simp
        with r tpos show False by simp
      qed
      have "t - band \<le> 1" using t b by simp
      with fl_unit_error [OF nn] r show ?thesis by simp
    qed
  qed
  from eq lo hi t zero small show ?thesis by (simp add: eq)
qed

text \<open>
  The theorem at the default band \<open>0.05\<close> around \<open>t = 0.3\<close>, at a band of width \<open>0\<close>, and at
  a band of width \<open>2\<^sup>-\<^sup>6\<^sup>0\<close> around \<open>t = 0.5\<close>.
\<close>

theorem band_invariant_witness:
  "is_double (fl (3 / 10)) \<and> 0 \<le> fl (3 / 10) \<and> fl (3 / 10) \<le> 1 \<and> 0 \<le> fl (5 / 100)
   \<and> make_t1_t2 (fl (3 / 10)) (fl (5 / 100)) = (1 / 4, fl (35 / 100))
   \<and> 1 / 4 \<le> fl (3 / 10) \<and> fl (3 / 10) \<le> fl (35 / 100)
   \<and> is_double (1 / 2) \<and> make_t1_t2 (1 / 2) 0 = (1 / 2, 1 / 2)
   \<and> make_t1_t2 (1 / 2) (1 / 2 ^ 60) = (1 / 2, 1 / 2) \<and> (1 / 2 ^ 60 :: real) \<le> 1 / 2 ^ 54"
proof -
  have d: "is_double (fl (3 / 10))" by (rule is_double_fl)
  have t: "0 \<le> fl (3 / 10)" "fl (3 / 10) \<le> 1" by (simp_all add: fl_nonneg fl_le_1)
  have b: "0 \<le> fl (5 / 100)" by (simp add: fl_nonneg)
  have e: "make_t1_t2 (fl (3 / 10)) (fl (5 / 100)) = (1 / 4, fl (35 / 100))"
    by (simp add: make_t1_t2_def fl_eval)
  have h: "is_double (1 / 2)" by (simp add: is_double_def fl_eval)
  have z: "(0 :: real) \<le> 1 / 2" "(1 / 2 :: real) \<le> 1" "(0 :: real) \<le> 0"
    "(0 :: real) \<le> 1 / 2 ^ 60" by simp_all
  have s: "make_t1_t2 (1 / 2) (1 / 2 ^ 60) = (1 / 2, 1 / 2)"
    by (simp add: make_t1_t2_def fl_eval)
  from band_invariant [OF d t b]
  have "fst (make_t1_t2 (fl (3 / 10)) (fl (5 / 100))) \<le> fl (3 / 10)"
    and "fl (3 / 10) \<le> snd (make_t1_t2 (fl (3 / 10)) (fl (5 / 100)))" by blast+
  then have i1: "1 / 4 \<le> fl (3 / 10)" "fl (3 / 10) \<le> fl (35 / 100)"
    unfolding e by simp_all
  from band_invariant [OF h z(1) z(2) z(3)]
  have i2: "make_t1_t2 (1 / 2) 0 = (1 / 2, 1 / 2)" by blast
  from band_invariant [OF h z(1) z(2) z(4)] s
  have i3: "(1 / 2 ^ 60 :: real) \<le> 1 / 2 ^ 54" by blast
  from d t b e i1 h i2 s i3 show ?thesis by blast
qed

text \<open>
  Claim C8 as stated has \<open>t1 = t2 = t\<close> only when the band width is \<open>0\<close>. With \<open>t = 0.5\<close>
  and the positive band width \<open>2\<^sup>-\<^sup>6\<^sup>0\<close>, both \<open>t - band\<close> and \<open>t + band\<close> round to \<open>0.5\<close>.
\<close>

theorem band_absorbed_counterexample:
  "is_double (1 / 2) \<and> is_double (1 / 2 ^ 60) \<and> (0 :: real) < 1 / 2 ^ 60
   \<and> make_t1_t2 (1 / 2) (1 / 2 ^ 60) = (1 / 2, 1 / 2)"
  by (simp add: make_t1_t2_def is_double_def fl_eval)

subsection \<open>Router\<close>

lemma length_mask_assign:
  "length msk = length xs \<Longrightarrow> length (mask_assign msk v xs) = length xs"
  by (simp add: mask_assign_def)

lemma nth_mask_assign:
  "length msk = length xs \<Longrightarrow> i < length xs \<Longrightarrow>
     mask_assign msk v xs ! i = (if msk ! i then v else xs ! i)"
  by (simp add: mask_assign_def)

lemma length_route_with_t1_t2: "length (route_with_t1_t2 y_score t1 t2) = length y_score"
  by (simp add: route_with_t1_t2_def Let_def length_mask_assign)

lemma nth_route_with_t1_t2:
  assumes "i < length y_score"
  shows "route_with_t1_t2 y_score t1 t2 ! i =
     (if t2 \<le> y_score ! i then Some ''high_risk''
      else if t1 \<le> y_score ! i then Some ''review''
      else if y_score ! i < t1 then Some ''low_risk'' else None)"
  using assms
  by (simp add: route_with_t1_t2_def Let_def length_mask_assign nth_mask_assign)

text \<open>
  Claim C4, as the code has it. For every score of the batch and every pair \<open>t1 \<le> t2\<close>,
  the route is exactly one of low\_risk, review and high\_risk: low\_risk exactly when
  \<open>score < t1\<close>, review exactly when \<open>t1 \<le> score < t2\<close>, high\_risk exactly when
  \<open>score \<ge> t2\<close>. A score equal to \<open>t2\<close> is high\_risk; a score equal to \<open>t1\<close> is review
  when \<open>t1 < t2\<close>.
\<close>

theorem route_partition:
  assumes "t1 \<le> t2" and "i < length y_score"
  shows "route_with_t1_t2 y_score t1 t2 ! i \<in>
           {Some ''low_risk'', Some ''review'', Some ''high_risk''}
       \<and> (route_with_t1_t2 y_score t1 t2 ! i = Some ''low_risk'' \<longleftrightarrow> y_score ! i < t1)
       \<and> (route_with_t1_t2 y_score t1 t2 ! i = Some ''review''
            \<longleftrightarrow> t1 \<le> y_score ! i \<and> y_score ! i < t2)
       \<and> (route_with_t1_t2 y_score t1 t2 ! i = Some ''high_risk'' \<longleftrightarrow> t2 \<le> y_score ! i)
       \<and> (y_score ! i = t1 \<and> t1 < t2 \<longrightarrow> route_with_t1_t2 y_score t1 t2 ! i = Some ''review'')
       \<and> (y_score ! i = t2 \<longrightarrow> route_with_t1_t2 y_score t1 t2 ! i = Some ''high_risk'')"
  using assms by (auto simp: nth_route_with_t1_t2)

text \<open>
  The theorem at the batch \<open>[0.1, 0.25, 0.5, 0.75]\<close> with \<open>t1 = 0.25\<close> and \<open>t2 = 0.5\<close>: the
  second score equals \<open>t1\<close>, the third equals \<open>t2\<close>.
\<close>

theorem route_partition_witness:
  "(1 / 4 :: real) \<le> 1 / 2
   \<and> 1 < length [1 / 10, 1 / 4, 1 / 2, 3 / 4 :: real]
   \<and> 2 < length [1 / 10, 1 / 4, 1 / 2, 3 / 4 :: real]
   \<and> [1 / 10, 1 / 4, 1 / 2, 3 / 4 :: real] ! 1 = 1 / 4 \<and> (1 / 4 :: real) < 1 / 2
   \<and> [1 / 10, 1 / 4, 1 / 2, 3 / 4 :: real] ! 2 = 1 / 2
   \<and> route_with_t1_t2 [1 / 10, 1 / 4, 1 / 2, 3 / 4] (1 / 4) (1 / 2) ! 1 = Some ''review''
   \<and> route_with_t1_t2 [1 / 10, 1 / 4, 1 / 2, 3 / 4] (1 / 4) (1 / 2) ! 2 = Some ''high_risk''"
proof -
  have h: "(1 / 4 :: real) \<le> 1 / 2" by simp
  have l1: "1 < length [1 / 10, 1 / 4, 1 / 2, 3 / 4 :: real]" by simp
  have l2: "2 < length [1 / 10, 1 / 4, 1 / 2, 3 / 4 :: real]" by simp
  show ?thesis
    using route_partition [OF h l1] route_partition [OF h l2] by simp
qed

text \<open>
  Claim C4 as stated lets a score equal to \<open>t1\<close> be routed to review for every
  \<open>t1 \<le> t2\<close>. With the degenerate band \<open>t1 = t2 = 0.5\<close> the review zone is empty and the
  score \<open>0.5\<close> is routed to high\_risk.
\<close>

theorem route_at_t1_counterexample:
  "(1 / 2 :: real) \<le> 1 / 2
   \<and> route_with_t1_t2 [1 / 2] (1 / 2) (1 / 2) = [Some ''high_risk'']
   \<and> route_with_t1_t2 [1 / 2] (1 / 2) (1 / 2) \<noteq> [Some ''review'']"
  by (simp add: route_with_t1_t2_def mask_assign_def)

end
